theory Spec2Isabelle
  imports Complex_Main
begin

section \<open>JavaScript values, errors and effects\<close>

text \<open>
  The program is two JavaScript modules: \<^verbatim>\<open>matrix.js\<close> (class \<^verbatim>\<open>Matrix\<close>, a wrapper
  around the field \<^verbatim>\<open>data\<close>, an array of rows) and \<^verbatim>\<open>network.js\<close> (class
  \<^verbatim>\<open>NNetwork\<close>).

  Numbers. JavaScript numbers are IEEE doubles; the model idealises them as \<^typ>\<open>real\<close>,
  so rounding, overflow to infinity and NaN are outside the model. Where the code would
  put \<^verbatim>\<open>undefined\<close> or NaN into a cell (a read past the end of a row, \<^verbatim>\<open>0/0\<close>) the model
  stops with the error \<open>NotANumber\<close>: JavaScript itself would continue with the
  polluted data, so nothing is claimed about such runs.

  Objects. A matrix is modelled by the contents of its \<^verbatim>\<open>data\<close> field. Every method that
  mutates its receiver returns the new contents. The constructor pushes a fresh copy
  \<^verbatim>\<open>[...row]\<close> for every row, and \<^verbatim>\<open>clone\<close> copies the outer array and every row, so
  no two matrices of the program ever share a row; this is what makes the value model
  adequate.

  Exceptions. A property read or a method call on \<^verbatim>\<open>undefined\<close> or \<^verbatim>\<open>false\<close> throws a
  \<^verbatim>\<open>TypeError\<close>; the model returns \<open>Inl TypeError\<close>.

  Names. The methods \<^verbatim>\<open>size\<close>, \<^verbatim>\<open>set\<close>, \<^verbatim>\<open>transpose\<close> and \<^verbatim>\<open>apply\<close> are called
  \<open>size_m\<close>, \<open>set_m\<close>, \<open>transpose_m\<close> and \<open>apply_m\<close>, since the plain names are taken.
  \<^verbatim>\<open>show\<close> and \<^verbatim>\<open>scalarDiv\<close> are not used by the network and are left out.

  Randomness. \<^verbatim>\<open>Math.random()\<close> is the only source of nondeterminism. The model threads
  the stream of numbers that \<^verbatim>\<open>Math.random()\<close> is going to return: \<open>g 0\<close> is the next
  one. Output on the console is not modelled.
\<close>

type_synonym matrix = "real list list"

datatype jsval = JUndefined | JFalse | Mat matrix

datatype error = TypeError | NotANumber

type_synonym rng = "nat \<Rightarrow> real"

type_synonym 'a js = "rng \<Rightarrow> error + ('a \<times> rng)"

definition js_return :: "'a \<Rightarrow> 'a js" where
  "js_return x = (\<lambda>g. Inr (x, g))"

definition js_throw :: "error \<Rightarrow> 'a js" where
  "js_throw e = (\<lambda>g. Inl e)"

definition js_bind :: "'a js \<Rightarrow> ('a \<Rightarrow> 'b js) \<Rightarrow> 'b js" where
  "js_bind m f = (\<lambda>g. case m g of Inl e \<Rightarrow> Inl e | Inr (x, g') \<Rightarrow> f x g')"

text \<open>\<^verbatim>\<open>Math.random()\<close>: takes the head of the stream.\<close>

definition random :: "real js" where
  "random = (\<lambda>g. Inr (g 0, \<lambda>i. g (Suc i)))"

text \<open>
  \<^verbatim>\<open>for (let i = ...; ...; ...) body\<close> over the given indices, the loop state passed
  along. Every loop of the program counts over a range whose bounds the body does not
  change (the length of an array of layers, or the size of a matrix that the body only
  writes cell by cell), so the range is computed once.
\<close>

fun for_loop :: "nat list \<Rightarrow> (nat \<Rightarrow> 's \<Rightarrow> 's js) \<Rightarrow> 's \<Rightarrow> 's js" where
  "for_loop [] body s = js_return s"
| "for_loop (i # is) body s = js_bind (body i s) (for_loop is body)"

text \<open>
  \<^verbatim>\<open>xs[i]\<close> on an array of objects: \<^verbatim>\<open>undefined\<close> out of range (also for a negative
  index). \<^verbatim>\<open>xs[i] = v\<close>: JavaScript extends the array, the holes read as \<^verbatim>\<open>undefined\<close>.
  \<open>obj v\<close> is the use of \<open>v\<close> as a Matrix object (as the receiver of a method call, or
  as the argument whose \<^verbatim>\<open>data\<close> or \<^verbatim>\<open>size()\<close> is read).
\<close>

definition js_nth :: "jsval list \<Rightarrow> int \<Rightarrow> jsval" where
  "js_nth xs i = (if 0 \<le> i \<and> i < int (length xs) then xs ! nat i else JUndefined)"

definition assign :: "jsval list \<Rightarrow> nat \<Rightarrow> jsval \<Rightarrow> jsval list" where
  "assign xs i v =
     (if i < length xs then xs[i := v]
      else xs @ replicate (i - length xs) JUndefined @ [v])"

definition obj :: "jsval \<Rightarrow> matrix js" where
  "obj v = (case v of Mat m \<Rightarrow> js_return m | _ \<Rightarrow> js_throw TypeError)"

text \<open>\<^verbatim>\<open>sizes[i]\<close> used as a loop bound: \<^verbatim>\<open>undefined\<close> out of range, and then no iteration.\<close>

definition js_dim :: "nat list \<Rightarrow> int \<Rightarrow> nat" where
  "js_dim xs i = (if 0 \<le> i \<and> i < int (length xs) then xs ! nat i else 0)"


section \<open>The matrix engine (matrix.js)\<close>

text \<open>\<^verbatim>\<open>size()\<close>: \<^verbatim>\<open>[this.data.length, this.data[0].length]\<close>; throws when there is no row.\<close>

definition size_m :: "matrix \<Rightarrow> (nat \<times> nat) js" where
  "size_m this =
     (case this of
        [] \<Rightarrow> js_throw TypeError
      | row0 # _ \<Rightarrow> js_return (length this, length row0))"

text \<open>
  \<^verbatim>\<open>set(row, column, value)\<close>: \<^verbatim>\<open>this.data[row][column] = value\<close>. A missing row throws;
  a column just past the end extends the row; further out it would leave holes.
\<close>

definition set_m :: "matrix \<Rightarrow> nat \<Rightarrow> nat \<Rightarrow> real \<Rightarrow> matrix js" where
  "set_m this row column val =
     (if row < length this then
        (if column < length (this ! row) then
           js_return (this[row := (this ! row)[column := val]])
         else if column = length (this ! row) then
           js_return (this[row := this ! row @ [val]])
         else js_throw NotANumber)
      else js_throw TypeError)"

text \<open>\<^verbatim>\<open>get(row, column)\<close>: \<^verbatim>\<open>this.data[row][column]\<close>.\<close>

definition get :: "matrix \<Rightarrow> nat \<Rightarrow> nat \<Rightarrow> real js" where
  "get this row column =
     (if row < length this then
        (if column < length (this ! row) then js_return (this ! row ! column)
         else js_throw NotANumber)
      else js_throw TypeError)"

text \<open>\<^verbatim>\<open>randomise()\<close>: every cell becomes \<^verbatim>\<open>Math.random() * 10 - 5\<close>, row by row.\<close>

definition randomise :: "matrix \<Rightarrow> matrix js" where
  "randomise this =
     js_bind (size_m this) (\<lambda>(rows, columns).
       for_loop [0..<rows] (\<lambda>r.
         for_loop [0..<columns] (\<lambda>c this.
           js_bind random (\<lambda>x. set_m this r c (x * 10 - 5)))) this)"

text \<open>
  \<^verbatim>\<open>new Matrix(rows, columns, val)\<close>. \<open>None\<close> is the call without \<^verbatim>\<open>val\<close>: the cells
  are \<^verbatim>\<open>undefined\<close> until \<^verbatim>\<open>randomise\<close> has overwritten every one of them (it does, or it
  throws), so the placeholder \<open>0\<close> for \<^verbatim>\<open>undefined\<close> is never read.
\<close>

definition Matrix :: "nat \<Rightarrow> nat \<Rightarrow> real option \<Rightarrow> matrix js" where
  "Matrix rows columns val =
     (let row = replicate columns (case val of Some v \<Rightarrow> v | None \<Rightarrow> 0);
          data = replicate rows row
      in case val of
           None \<Rightarrow> randomise data
         | Some _ \<Rightarrow> js_return data)"

text \<open>\<^verbatim>\<open>mult(matB)\<close>: \<^verbatim>\<open>false\<close> when the inner dimensions differ.\<close>

definition mult :: "matrix \<Rightarrow> matrix \<Rightarrow> jsval js" where
  "mult this matB =
     (case this of
        [] \<Rightarrow> js_throw TypeError
      | row0 # _ \<Rightarrow>
          if length row0 \<noteq> length matB then js_return JFalse
          else
            (case matB of
               [] \<Rightarrow> js_throw TypeError
             | brow0 # _ \<Rightarrow>
                 let r = length this; c = length brow0; n = length row0 in
                 js_bind (Matrix r c None) (\<lambda>result.
                 js_bind
                   (for_loop [0..<r] (\<lambda>i.
                      for_loop [0..<c] (\<lambda>j result.
                        js_bind
                          (for_loop [0..<n] (\<lambda>k total.
                             js_bind (get this i k) (\<lambda>a.
                             js_bind (get matB k j) (\<lambda>b.
                             js_return (total + a * b)))) 0)
                          (\<lambda>total. set_m result i j total))) result)
                   (\<lambda>result. js_return (Mat result)))))"

text \<open>\<^verbatim>\<open>add(matB)\<close>, \<^verbatim>\<open>subtract(matB)\<close>: \<^verbatim>\<open>false\<close> when the sizes differ.\<close>

definition add :: "matrix \<Rightarrow> matrix \<Rightarrow> jsval js" where
  "add this matB =
     js_bind (size_m this) (\<lambda>aSize.
     js_bind (size_m matB) (\<lambda>bSize.
       if fst aSize \<noteq> fst bSize \<or> snd aSize \<noteq> snd bSize then js_return JFalse
       else
         js_bind (size_m this) (\<lambda>(rows, columns).
         js_bind (Matrix rows columns None) (\<lambda>result.
         js_bind
           (for_loop [0..<rows] (\<lambda>i.
              for_loop [0..<columns] (\<lambda>j result.
                js_bind (get this i j) (\<lambda>a.
                js_bind (get matB i j) (\<lambda>b.
                set_m result i j (a + b))))) result)
           (\<lambda>result. js_return (Mat result))))))"

definition subtract :: "matrix \<Rightarrow> matrix \<Rightarrow> jsval js" where
  "subtract this matB =
     js_bind (size_m this) (\<lambda>aSize.
     js_bind (size_m matB) (\<lambda>bSize.
       if fst aSize \<noteq> fst bSize \<or> snd aSize \<noteq> snd bSize then js_return JFalse
       else
         js_bind (size_m this) (\<lambda>(rows, columns).
         js_bind (Matrix rows columns None) (\<lambda>result.
         js_bind
           (for_loop [0..<rows] (\<lambda>i.
              for_loop [0..<columns] (\<lambda>j result.
                js_bind (get this i j) (\<lambda>a.
                js_bind (get matB i j) (\<lambda>b.
                set_m result i j (a - b))))) result)
           (\<lambda>result. js_return (Mat result))))))"

text \<open>\<^verbatim>\<open>scalarMult(multiplier)\<close>, in place.\<close>

definition scalarMult :: "matrix \<Rightarrow> real \<Rightarrow> matrix js" where
  "scalarMult this multiplier =
     js_bind (size_m this) (\<lambda>(rows, columns).
       for_loop [0..<rows] (\<lambda>r.
         for_loop [0..<columns] (\<lambda>c this.
           js_bind (get this r c) (\<lambda>x. set_m this r c (x * multiplier)))) this)"

text \<open>
  \<^verbatim>\<open>transpose()\<close>, in place: fills \<^verbatim>\<open>other = new Matrix(columns, rows, 0)\<close> and takes its
  data.
\<close>

definition transpose_m :: "matrix \<Rightarrow> matrix js" where
  "transpose_m this =
     js_bind (size_m this) (\<lambda>(rows, columns).
     js_bind (Matrix columns rows (Some 0)) (\<lambda>other.
       for_loop [0..<rows] (\<lambda>r.
         for_loop [0..<columns] (\<lambda>c other.
           js_bind (get this r c) (\<lambda>x. set_m other c r x))) other))"

text \<open>\<^verbatim>\<open>apply(f)\<close>, in place.\<close>

definition apply_m :: "matrix \<Rightarrow> (real \<Rightarrow> real) \<Rightarrow> matrix js" where
  "apply_m this f =
     js_bind (size_m this) (\<lambda>(rows, columns).
       for_loop [0..<rows] (\<lambda>r.
         for_loop [0..<columns] (\<lambda>c this.
           js_bind (get this r c) (\<lambda>x. set_m this r c (f x)))) this)"

text \<open>\<^verbatim>\<open>hadamard(matB)\<close>: \<^verbatim>\<open>false\<close> when the sizes differ.\<close>

definition hadamard :: "matrix \<Rightarrow> matrix \<Rightarrow> jsval js" where
  "hadamard this matB =
     js_bind (size_m this) (\<lambda>(rows, columns).
     js_bind (size_m matB) (\<lambda>(bRows, bColumns).
       if rows \<noteq> bRows \<or> columns \<noteq> bColumns then js_return JFalse
       else
         js_bind (Matrix rows columns None) (\<lambda>result.
         js_bind
           (for_loop [0..<rows] (\<lambda>r.
              for_loop [0..<columns] (\<lambda>c result.
                js_bind (get this r c) (\<lambda>a.
                js_bind (get matB r c) (\<lambda>b.
                set_m result r c (a * b))))) result)
           (\<lambda>result. js_return (Mat result)))))"

text \<open>
  \<^verbatim>\<open>clone(matB)\<close>, in place: \<^verbatim>\<open>this.data = [...matB.data]\<close>, then every row replaced by
  a copy of the row of \<open>matB\<close>. The old contents of the receiver are dropped.
\<close>

definition clone :: "matrix \<Rightarrow> matrix \<Rightarrow> matrix" where
  "clone this matB = fold (\<lambda>i data. data[i := matB ! i]) [0..<length matB] matB"


section \<open>The network engine (network.js)\<close>

record network =
  weights :: "jsval list"
  activations :: "jsval list"
  Z :: "jsval list"
  biases :: "jsval list"
  layerCount :: nat
  "structure" :: "nat list"
  \<alpha> :: real

definition sigmoid :: "real \<Rightarrow> real" where
  "sigmoid x = 1 / (1 + exp (- x))"

definition sigPrime :: "real \<Rightarrow> real" where
  "sigPrime x = (let exponent = exp (- x) in exponent / ((exponent + 1) * (exponent + 1)))"

text \<open>
  The constructor. The weight and bias matrices are built by \<^verbatim>\<open>new Matrix(r, c)\<close>, that
  is without \<^verbatim>\<open>val\<close>; the activation and \<^verbatim>\<open>Z\<close> vectors with \<^verbatim>\<open>val = 0\<close>.
\<close>

definition NNetwork :: "nat list \<Rightarrow> network js" where
  "NNetwork sizes =
     for_loop [0..<length sizes] (\<lambda>l this.
       js_bind
         (if l < length sizes - 1 then
            js_bind (Matrix (sizes ! (l + 1)) (sizes ! l) None) (\<lambda>m.
            js_return (this\<lparr>weights := weights this @ [Mat m]\<rparr>))
          else js_return this) (\<lambda>this.
       js_bind (Matrix (sizes ! l) 1 (Some 0)) (\<lambda>a.
       js_bind (Matrix (sizes ! l) 1 (Some 0)) (\<lambda>z.
       let this = this\<lparr>activations := activations this @ [Mat a], Z := Z this @ [Mat z]\<rparr> in
       if l > 0 then
         js_bind (Matrix (sizes ! l) 1 None) (\<lambda>b.
         js_return (this\<lparr>biases := biases this @ [Mat b]\<rparr>))
       else js_return this))))
     \<lparr>weights = [], activations = [], Z = [], biases = [],
      layerCount = length sizes, structure = sizes, \<alpha> = 0.01\<rparr>"

text \<open>
  \<^verbatim>\<open>calculate(l)\<close>: returns \<^verbatim>\<open>false\<close> for \<open>l < 1\<close> and \<^verbatim>\<open>undefined\<close> otherwise; the second
  component is the network after the call.
\<close>

definition calculate :: "network \<Rightarrow> int \<Rightarrow> (jsval \<times> network) js" where
  "calculate this l =
     (if l < 1 then js_return (JFalse, this)
      else
        js_bind (obj (js_nth (weights this) (l - 1))) (\<lambda>w.
        js_bind (obj (js_nth (activations this) (l - 1))) (\<lambda>a.
        js_bind (mult w a) (\<lambda>wa0.
        js_bind (obj wa0) (\<lambda>wa0.
        js_bind (obj (js_nth (biases this) (l - 1))) (\<lambda>b.
        js_bind (add wa0 b) (\<lambda>wab.
        js_bind (obj (js_nth (Z this) l)) (\<lambda>z.
        js_bind (obj wab) (\<lambda>wab.
        let this = this\<lparr>Z := (Z this)[nat l := Mat (clone z wab)]\<rparr> in
        js_bind (apply_m wab sigmoid) (\<lambda>wab.
        js_return (JUndefined, this\<lparr>activations := assign (activations this) (nat l) (Mat wab)\<rparr>)))))))))))"

text \<open>
  \<^verbatim>\<open>forwardProp(input)\<close>; \<open>imgData\<close> is the module-level array of samples.
  \<^verbatim>\<open>imgData[input][i]\<close> throws when there is no such sample and is \<^verbatim>\<open>undefined\<close> when the
  sample is too short.
\<close>

definition img_at :: "real list list \<Rightarrow> nat \<Rightarrow> nat \<Rightarrow> real js" where
  "img_at imgData input i =
     (if input < length imgData then
        (if i < length (imgData ! input) then js_return (imgData ! input ! i)
         else js_throw NotANumber)
      else js_throw TypeError)"

definition forwardProp :: "real list list \<Rightarrow> network \<Rightarrow> nat \<Rightarrow> network js" where
  "forwardProp imgData this input =
     js_bind (obj (js_nth (activations this) 0)) (\<lambda>a0.
     js_bind (size_m a0) (\<lambda>(l0Length, _).
     js_bind
       (for_loop [0..<l0Length] (\<lambda>i a0.
          js_bind (img_at imgData input i) (\<lambda>v. set_m a0 i 0 v)) a0) (\<lambda>a0.
     for_loop [1..<length (activations this)] (\<lambda>l this.
       js_bind (calculate this (int l)) (\<lambda>(_, this). js_return this))
       (this\<lparr>activations := (activations this)[0 := Mat a0]\<rparr>))))"

text \<open>\<^verbatim>\<open>getCost(y)\<close>; \<^verbatim>\<open>0 / 0\<close> is NaN.\<close>

definition getCost :: "network \<Rightarrow> matrix \<Rightarrow> real js" where
  "getCost this y =
     (let layer = int (length (structure this)) - 1;
          nCount = js_dim (structure this) (int (length (structure this)) - 1)
      in
        js_bind
          (for_loop [0..<nCount] (\<lambda>n cost.
             js_bind (obj (js_nth (activations this) layer)) (\<lambda>a.
             js_bind (get a n 0) (\<lambda>av.
             js_bind (get y n 0) (\<lambda>yv.
             let val = av - yv; val = val * val in
             js_return (cost + val))))) 0) (\<lambda>cost.
        if nCount = 0 then js_throw NotANumber
        else js_return (cost / real nCount)))"

text \<open>
  \<^verbatim>\<open>backProp(index)\<close>, in three parts. The first part (lines 113 to 235) builds the
  target \<open>Y\<close> and the local arrays; \<open>labels\<close> is the module-level array of labels, and
  \<^verbatim>\<open>Y.set(undefined, 0, 1)\<close> throws as any missing row does. It returns
  \<open>(Y, CW, CB, AZ, X)\<close>.
\<close>

definition backProp_locals ::
  "nat list \<Rightarrow> network \<Rightarrow> nat \<Rightarrow> (matrix \<times> jsval list \<times> jsval list \<times> jsval list \<times> jsval list) js" where
  "backProp_locals labels this index =
     js_bind (Matrix (js_dim (structure this) (int (length (structure this)) - 1)) 1 (Some 0)) (\<lambda>Y.
     js_bind (if index < length labels then set_m Y (labels ! index) 0 1 else js_throw TypeError) (\<lambda>Y.
     js_bind (getCost this Y) (\<lambda>cost.
     let layers = length (structure this) in
     js_bind (obj (js_nth (activations this) (int layers - 1))) (\<lambda>aL.
     js_bind (subtract aL Y) (\<lambda>dCdA.
     js_bind (obj dCdA) (\<lambda>dCdA.
     js_bind (scalarMult dCdA 2) (\<lambda>dCdA.
     js_bind (Matrix (js_dim (structure this) 0) 1 (Some 1)) (\<lambda>az.
     js_bind (obj (js_nth (Z this) 0)) (\<lambda>z.
     js_bind (apply_m (clone az z) sigPrime) (\<lambda>az.
     js_bind
       (for_loop [1..<layers] (\<lambda>i (CW, CB, AZ, X).
          js_bind (Matrix (structure this ! i) (structure this ! (i - 1)) (Some 1)) (\<lambda>cw.
          let CW = CW @ [Mat cw] in
          js_bind (obj (js_nth CW (int i - 1))) (\<lambda>cw.
          let CW = CW[i - 1 := Mat (clone cw dCdA)] in
          js_bind (Matrix (structure this ! i) 1 (Some 1)) (\<lambda>cb.
          let CB = CB @ [Mat cb] in
          js_bind (obj (js_nth CB (int i - 1))) (\<lambda>cb.
          let CB = CB[i - 1 := Mat (clone cb dCdA)] in
          js_bind (Matrix (structure this ! i) 1 (Some 1)) (\<lambda>az.
          let AZ = AZ @ [Mat az] in
          js_bind (obj (js_nth AZ (int i))) (\<lambda>az.
          js_bind (obj (js_nth (Z this) (int i))) (\<lambda>z.
          js_bind (apply_m (clone az z) sigPrime) (\<lambda>az.
          js_return (CW, CB, AZ[i := Mat az], X @ [JUndefined]))))))))))
          ([], [], [Mat az], [JUndefined])) (\<lambda>(CW, CB, AZ, X).
     js_return (Y, CW, CB, AZ, X))))))))))))"

text \<open>
  The second part (lines 237 to 271) runs from the last layer down to layer 0 and
  computes the error signals \<open>X\<close> and the gradients \<open>CW\<close> and \<open>CB\<close>. It returns
  \<open>(X, CW, CB)\<close>.
\<close>

definition backProp_gradients ::
  "network \<Rightarrow> matrix \<Rightarrow> jsval list \<Rightarrow> jsval list \<Rightarrow> jsval list \<Rightarrow> jsval list
     \<Rightarrow> (jsval list \<times> jsval list \<times> jsval list) js" where
  "backProp_gradients this Y CW CB AZ X =
     (let layers = length (structure this) in
      for_loop (rev [0..<layers]) (\<lambda>l (X, CW, CB).
        if l = layers - 1 then
          js_bind (obj (js_nth (activations this) (int l))) (\<lambda>a.
          js_bind (subtract a Y) (\<lambda>xl.
          js_bind (obj xl) (\<lambda>xl.
          js_bind (scalarMult xl 2) (\<lambda>xl.
          js_bind (obj (js_nth AZ (int l))) (\<lambda>az.
          js_bind (hadamard xl az) (\<lambda>xl.
          js_return (assign X l xl, CW, CB)))))))
        else
          js_bind (Matrix 1 1 (Some 1)) (\<lambda>xl.
          js_bind (obj (js_nth (weights this) (int l))) (\<lambda>w.
          js_bind (transpose_m (clone xl w)) (\<lambda>xl.
          js_bind (obj (js_nth X (int l + 1))) (\<lambda>xl1.
          js_bind (mult xl xl1) (\<lambda>xl.
          js_bind (obj xl) (\<lambda>xl.
          js_bind (obj (js_nth AZ (int l))) (\<lambda>az.
          js_bind (hadamard xl az) (\<lambda>xl.
          let X = assign X l xl in
          js_bind (Matrix 1 1 (Some 1)) (\<lambda>aTranspose.
          js_bind (obj (js_nth (activations this) (int l))) (\<lambda>a.
          js_bind (transpose_m (clone aTranspose a)) (\<lambda>aTranspose.
          js_bind (obj (js_nth X (int l + 1))) (\<lambda>xl1.
          js_bind (mult xl1 aTranspose) (\<lambda>cw.
          let CW = assign CW l cw in
          js_bind (Matrix 1 1 (Some 1)) (\<lambda>bTranspose.
          js_bind (obj (js_nth (biases this) (int l))) (\<lambda>b.
          let bTranspose = clone bTranspose b in
          js_bind (obj (js_nth X (int l + 1))) (\<lambda>xl1.
          js_bind (hadamard xl1 bTranspose) (\<lambda>cb.
          js_return (X, CW, assign CB l cb)))))))))))))))))))
        (X, CW, CB))"

text \<open>The third part (lines 273 to 296) updates the weights and biases.\<close>

definition backProp_update :: "network \<Rightarrow> jsval list \<Rightarrow> jsval list \<Rightarrow> network js" where
  "backProp_update this CW CB =
     (let layers = length (structure this) in
      for_loop [0..<layers - 1] (\<lambda>l this.
        js_bind (Matrix 1 1 (Some 1)) (\<lambda>scaledW.
        js_bind (obj (js_nth (weights this) (int l))) (\<lambda>w.
        js_bind (scalarMult (clone scaledW w) (\<alpha> this)) (\<lambda>scaledW.
        js_bind (obj (js_nth CW (int l))) (\<lambda>cw.
        js_bind (hadamard scaledW cw) (\<lambda>scaledW.
        js_bind (obj (js_nth (weights this) (int l))) (\<lambda>w.
        js_bind (obj scaledW) (\<lambda>scaledW.
        js_bind (subtract w scaledW) (\<lambda>w'.
        let this = this\<lparr>weights := assign (weights this) l w'\<rparr> in
        js_bind (Matrix 1 1 (Some 1)) (\<lambda>scaledB.
        js_bind (obj (js_nth (biases this) (int l))) (\<lambda>b.
        js_bind (scalarMult (clone scaledB b) (\<alpha> this)) (\<lambda>scaledB.
        js_bind (obj (js_nth (biases this) (int l))) (\<lambda>b.
        js_bind (obj (js_nth CB (int l))) (\<lambda>cb.
        js_bind (hadamard scaledB cb) (\<lambda>sb.
        js_bind (obj sb) (\<lambda>sb.
        js_bind (subtract b sb) (\<lambda>b'.
        js_return (this\<lparr>biases := assign (biases this) l b'\<rparr>)))))))))))))))))) this)"

definition backProp :: "nat list \<Rightarrow> network \<Rightarrow> nat \<Rightarrow> network js" where
  "backProp labels this index =
     js_bind (backProp_locals labels this index) (\<lambda>(Y, CW, CB, AZ, X).
     js_bind (backProp_gradients this Y CW CB AZ X) (\<lambda>(X, CW, CB).
     backProp_update this CW CB))"

text \<open>\<^verbatim>\<open>train(count)\<close>: every round is a forward pass and a backward pass on sample 0.\<close>

definition train :: "real list list \<Rightarrow> nat list \<Rightarrow> network \<Rightarrow> nat \<Rightarrow> network js" where
  "train imgData labels this count =
     for_loop [0..<count] (\<lambda>index this.
       js_bind (forwardProp imgData this 0) (\<lambda>this.
       backProp labels this 0)) this"

section \<open>Notions of the specification\<close>

text \<open>
  The definitions of this section do not model code. They are the vocabulary in which
  the properties are stated: shapes, the algebra of matrices as mathematics writes it,
  and the quantities that the specification names.
\<close>

subsection \<open>Shapes\<close>

text \<open>
  \<open>is_mat r c m\<close>: the matrix has \<open>r\<close> rows, each of \<open>c\<close> entries. The specification
  demands at least one row of every matrix; the theorems state that separately.
  \<open>tab r c f\<close> is the \<open>r\<close> by \<open>c\<close> matrix with entry \<open>f i j\<close> at row \<open>i\<close>, column \<open>j\<close>.
\<close>

definition is_mat :: "nat \<Rightarrow> nat \<Rightarrow> matrix \<Rightarrow> bool" where
  "is_mat r c m \<longleftrightarrow> length m = r \<and> list_all (\<lambda>row. length row = c) m"

definition tab :: "nat \<Rightarrow> nat \<Rightarrow> (nat \<Rightarrow> nat \<Rightarrow> real) \<Rightarrow> matrix" where
  "tab r c f = map (\<lambda>i. map (\<lambda>j. f i j) [0..<c]) [0..<r]"

definition nrows :: "matrix \<Rightarrow> nat" where
  "nrows m = length m"

definition ncols :: "matrix \<Rightarrow> nat" where
  "ncols m = (case m of [] \<Rightarrow> 0 | row0 # _ \<Rightarrow> length row0)"

text \<open>The matrix that a slot holds, when it holds one, and the shape of a slot.\<close>

definition mat_val :: "jsval \<Rightarrow> matrix" where
  "mat_val v = (case v of Mat m \<Rightarrow> m | _ \<Rightarrow> [])"

definition has_shape :: "nat \<Rightarrow> nat \<Rightarrow> jsval \<Rightarrow> bool" where
  "has_shape r c v = (case v of Mat m \<Rightarrow> is_mat r c m | _ \<Rightarrow> False)"

text \<open>The stream of random numbers after \<open>n\<close> calls of \<^verbatim>\<open>Math.random()\<close>.\<close>

definition rdrop :: "nat \<Rightarrow> rng \<Rightarrow> rng" where
  "rdrop n g = (\<lambda>i. g (i + n))"

subsection \<open>Matrix algebra\<close>

text \<open>
  Sum, difference, Hadamard product, scalar multiple, elementwise map, transpose and
  product, entry by entry. The product is the usual sum over the inner index.
\<close>

definition mat_add :: "matrix \<Rightarrow> matrix \<Rightarrow> matrix" where
  "mat_add A B = tab (nrows A) (ncols A) (\<lambda>i j. A ! i ! j + B ! i ! j)"

definition mat_sub :: "matrix \<Rightarrow> matrix \<Rightarrow> matrix" where
  "mat_sub A B = tab (nrows A) (ncols A) (\<lambda>i j. A ! i ! j - B ! i ! j)"

definition mat_had :: "matrix \<Rightarrow> matrix \<Rightarrow> matrix" where
  "mat_had A B = tab (nrows A) (ncols A) (\<lambda>i j. A ! i ! j * B ! i ! j)"

definition mat_scale :: "real \<Rightarrow> matrix \<Rightarrow> matrix" where
  "mat_scale k A = tab (nrows A) (ncols A) (\<lambda>i j. k * A ! i ! j)"

definition mat_map :: "(real \<Rightarrow> real) \<Rightarrow> matrix \<Rightarrow> matrix" where
  "mat_map f A = tab (nrows A) (ncols A) (\<lambda>i j. f (A ! i ! j))"

definition mat_T :: "matrix \<Rightarrow> matrix" where
  "mat_T A = tab (ncols A) (nrows A) (\<lambda>i j. A ! j ! i)"

definition mat_mul :: "matrix \<Rightarrow> matrix \<Rightarrow> matrix" where
  "mat_mul A B = tab (nrows A) (ncols B) (\<lambda>i j. \<Sum>k<ncols A. A ! i ! k * B ! k ! j)"

text \<open>A list of numbers as a column vector, and the one-hot column of a label.\<close>

definition column :: "real list \<Rightarrow> matrix" where
  "column xs = map (\<lambda>x. [x]) xs"

definition one_hot :: "nat \<Rightarrow> nat \<Rightarrow> matrix" where
  "one_hot n d = tab n 1 (\<lambda>i j. if i = d then 1 else 0)"

subsection \<open>The network\<close>

text \<open>
  \<open>shape_inv\<close> is the invariant of the specification: for every layer \<open>l\<close> below the
  last, \<open>weights[l]\<close> is \<open>structure[l+1]\<close> by \<open>structure[l]\<close> and \<open>biases[l]\<close> is
  \<open>structure[l+1]\<close> by 1. \<open>wf_net\<close> adds what the data model says of the rest: there is
  a layer, every layer has a neuron, and \<open>activations[l]\<close> and \<open>Z[l]\<close> are
  \<open>structure[l]\<close> by 1.
\<close>

definition shape_inv :: "network \<Rightarrow> bool" where
  "shape_inv N \<longleftrightarrow>
     length (weights N) = length (structure N) - 1 \<and>
     length (biases N) = length (structure N) - 1 \<and>
     (\<forall>l\<in>{0..<length (structure N) - 1}.
        has_shape (structure N ! (l + 1)) (structure N ! l) (weights N ! l) \<and>
        has_shape (structure N ! (l + 1)) 1 (biases N ! l))"

definition wf_net :: "network \<Rightarrow> bool" where
  "wf_net N \<longleftrightarrow>
     structure N \<noteq> [] \<and> (\<forall>n\<in>set (structure N). 0 < n) \<and> shape_inv N \<and>
     length (activations N) = length (structure N) \<and>
     length (Z N) = length (structure N) \<and>
     (\<forall>l\<in>{0..<length (structure N)}.
        has_shape (structure N ! l) 1 (activations N ! l) \<and>
        has_shape (structure N ! l) 1 (Z N ! l))"

text \<open>
  The pre-activation of layer \<open>l\<close> as the specification writes it, weights times
  activations of the layer below plus biases; and the state of layer \<open>l\<close> after a
  forward pass.
\<close>

definition pre_activation :: "network \<Rightarrow> nat \<Rightarrow> matrix" where
  "pre_activation N l =
     mat_add (mat_mul (mat_val (weights N ! (l - 1))) (mat_val (activations N ! (l - 1))))
             (mat_val (biases N ! (l - 1)))"

definition forward_state :: "network \<Rightarrow> nat \<Rightarrow> bool" where
  "forward_state N l \<longleftrightarrow>
     Z N ! l = Mat (pre_activation N l) \<and>
     activations N ! l = Mat (mat_map sigmoid (pre_activation N l))"

text \<open>The output layer, the sum of squared errors, and the target of a sample.\<close>

definition out_layer :: "network \<Rightarrow> matrix" where
  "out_layer N = mat_val (activations N ! (length (structure N) - 1))"

definition cost_sum :: "matrix \<Rightarrow> matrix \<Rightarrow> nat \<Rightarrow> real" where
  "cost_sum a y n = (\<Sum>i<n. (a ! i ! 0 - y ! i ! 0)\<^sup>2)"

definition target :: "nat list \<Rightarrow> network \<Rightarrow> nat \<Rightarrow> matrix" where
  "target labels N index = one_hot (last (structure N)) (labels ! index)"

text \<open>
  The error signals of the specification: at the last layer twice the difference of
  output and target, times the derivative at \<open>Z\<close>; below it the back-projection of the
  signal of the layer above through the transposed weights, times the derivative at
  \<open>Z\<close>. The recursion climbs from \<open>l\<close> to the last layer. \<open>grad_W\<close> and \<open>grad_b\<close> are the
  gradients of layer \<open>l\<close> as the specification writes them.
\<close>

function err_signal :: "network \<Rightarrow> matrix \<Rightarrow> nat \<Rightarrow> matrix" where
  "err_signal N Y l =
     (if Suc l < length (structure N) then
        mat_had (mat_mul (mat_T (mat_val (weights N ! l))) (err_signal N Y (Suc l)))
                (mat_map sigPrime (mat_val (Z N ! l)))
      else
        mat_had (mat_scale 2 (mat_sub (mat_val (activations N ! l)) Y))
                (mat_map sigPrime (mat_val (Z N ! l))))"
  by pat_completeness auto

termination
  by (relation "measure (\<lambda>(N, Y, l). length (structure N) - l)") auto

declare err_signal.simps [simp del]

definition grad_W :: "network \<Rightarrow> matrix \<Rightarrow> nat \<Rightarrow> matrix" where
  "grad_W N Y l = mat_mul (err_signal N Y (Suc l)) (mat_T (mat_val (activations N ! l)))"

definition grad_b :: "network \<Rightarrow> matrix \<Rightarrow> nat \<Rightarrow> matrix" where
  "grad_b N Y l = mat_had (err_signal N Y (Suc l)) (mat_val (biases N ! l))"

text \<open>
  The update of one parameter matrix as the specification writes it, and the network
  after the update of every layer with the gradients above.
\<close>

definition step_param :: "real \<Rightarrow> matrix \<Rightarrow> matrix \<Rightarrow> matrix" where
  "step_param a P G = mat_sub P (mat_scale a (mat_had P G))"

definition updated :: "network \<Rightarrow> matrix \<Rightarrow> network" where
  "updated N Y =
     N\<lparr>weights := map (\<lambda>l. Mat (step_param (\<alpha> N) (mat_val (weights N ! l)) (grad_W N Y l)))
                     [0..<length (structure N) - 1],
       biases := map (\<lambda>l. Mat (step_param (\<alpha> N) (mat_val (biases N ! l)) (grad_b N Y l)))
                     [0..<length (structure N) - 1]\<rparr>"

text \<open>
  A run of \<^verbatim>\<open>backProp\<close> seen from outside: from the network \<open>N\<close> and the random stream
  \<open>g\<close> the first part builds the target \<open>Y\<close>, the second part ends with the local
  arrays \<open>X\<close>, \<open>CW\<close> and \<open>CB\<close>, the third part ends with the network \<open>N'\<close>, and that is
  what \<^verbatim>\<open>backProp\<close> leaves behind.
\<close>

definition backward_pass ::
  "nat list \<Rightarrow> network \<Rightarrow> nat \<Rightarrow> rng \<Rightarrow> matrix \<Rightarrow> jsval list \<Rightarrow> jsval list \<Rightarrow> jsval list
     \<Rightarrow> network \<Rightarrow> bool" where
  "backward_pass labels N index g Y X CW CB N' \<longleftrightarrow>
     (\<exists>CW0 CB0 AZ X0 g1 g2 g3.
        backProp_locals labels N index g = Inr ((Y, CW0, CB0, AZ, X0), g1) \<and>
        backProp_gradients N Y CW0 CB0 AZ X0 g1 = Inr ((X, CW, CB), g2) \<and>
        backProp_update N CW CB g2 = Inr (N', g3) \<and>
        backProp labels N index g = Inr (N', g3))"

subsection \<open>Loop invariants\<close>

text \<open>
  The local arrays of \<^verbatim>\<open>backProp\<close> after its first loop has reached layer \<open>k\<close>
  (\<open>dCdA\<close>, \<open>AZ_of\<close>); after its second loop has come down to layer \<open>k\<close> (\<open>grad_inv\<close>);
  the parameters after its third loop has reached layer \<open>k\<close> (\<open>new_weights\<close>,
  \<open>new_biases\<close>); and the network under construction after \<open>k\<close> rounds of the
  constructor's loop (\<open>built\<close>).
\<close>

definition dCdA :: "network \<Rightarrow> matrix \<Rightarrow> matrix" where
  "dCdA N Y = mat_scale 2 (mat_sub (out_layer N) Y)"

definition AZ_of :: "network \<Rightarrow> nat \<Rightarrow> jsval list" where
  "AZ_of N k = map (\<lambda>l. Mat (mat_map sigPrime (mat_val (Z N ! l)))) [0..<k]"

definition grad_inv :: "network \<Rightarrow> matrix \<Rightarrow> nat \<Rightarrow> jsval list \<times> jsval list \<times> jsval list \<Rightarrow> bool" where
  "grad_inv N Y k s \<longleftrightarrow>
     (case s of (X, CW, CB) \<Rightarrow>
        length X = length (structure N) \<and>
        length CW = length (structure N) - 1 \<and>
        length CB = length (structure N) - 1 \<and>
        (\<forall>l. k \<le> l \<and> l < length (structure N) \<longrightarrow> X ! l = Mat (err_signal N Y l)) \<and>
        (\<forall>l. k \<le> l \<and> Suc l < length (structure N) \<longrightarrow>
           CW ! l = Mat (grad_W N Y l) \<and> CB ! l = Mat (grad_b N Y l)))"

definition new_weights :: "network \<Rightarrow> jsval list \<Rightarrow> nat \<Rightarrow> jsval list" where
  "new_weights N CW k =
     map (\<lambda>l. Mat (step_param (\<alpha> N) (mat_val (weights N ! l)) (mat_val (CW ! l)))) [0..<k]
       @ drop k (weights N)"

definition new_biases :: "network \<Rightarrow> jsval list \<Rightarrow> nat \<Rightarrow> jsval list" where
  "new_biases N CB k =
     map (\<lambda>l. Mat (step_param (\<alpha> N) (mat_val (biases N ! l)) (mat_val (CB ! l)))) [0..<k]
       @ drop k (biases N)"

definition built :: "nat list \<Rightarrow> nat \<Rightarrow> network \<Rightarrow> bool" where
  "built sizes k N \<longleftrightarrow>
     structure N = sizes \<and> layerCount N = length sizes \<and> \<alpha> N = 0.01 \<and>
     length (activations N) = k \<and> length (Z N) = k \<and>
     length (weights N) = min k (length sizes - 1) \<and> length (biases N) = k - 1 \<and>
     (\<forall>l<k. has_shape (sizes ! l) 1 (activations N ! l) \<and> has_shape (sizes ! l) 1 (Z N ! l)) \<and>
     (\<forall>l. l < k \<and> Suc l < length sizes \<longrightarrow> has_shape (sizes ! Suc l) (sizes ! l) (weights N ! l)) \<and>
     (\<forall>l. Suc l < k \<longrightarrow> has_shape (sizes ! Suc l) 1 (biases N ! l))"

text \<open>
  \<open>drawn g v\<close>: every cell of the matrix in slot \<open>v\<close> is \<^verbatim>\<open>Math.random() * 10 - 5\<close> for one
  of the numbers of the stream \<open>g\<close>.
\<close>

definition drawn :: "rng \<Rightarrow> jsval \<Rightarrow> bool" where
  "drawn g v \<longleftrightarrow> (\<forall>row\<in>set (mat_val v). \<forall>x\<in>set row. \<exists>k. x = g k * 10 - 5)"

subsection \<open>A sample network\<close>

text \<open>
  A network of structure 2, 2, 1 with one sample and its label, on which the
  hypotheses of the theorems below are checked.
\<close>

definition sample_net :: network where
  "sample_net =
     \<lparr>weights = [Mat [[1, 0], [0, 1]], Mat [[1, 1]]],
      activations = [Mat [[0], [0]], Mat [[0], [0]], Mat [[0]]],
      Z = [Mat [[0], [0]], Mat [[0], [0]], Mat [[0]]],
      biases = [Mat [[0], [0]], Mat [[0]]],
      layerCount = 3, structure = [2, 2, 1], \<alpha> = 0.01\<rparr>"

definition sample_images :: "real list list" where
  "sample_images = [[1, 0]]"

definition sample_labels :: "nat list" where
  "sample_labels = [0]"


section \<open>Closed forms of the matrix operations\<close>

subsection \<open>Sequencing and loops\<close>

lemma js_bind_return [simp]: "js_bind (js_return x) f = f x"
  by (simp add: js_bind_def js_return_def)

lemma js_bind_throw [simp]: "js_bind (js_throw e) f = js_throw e"
  by (simp add: js_bind_def js_throw_def)

lemma js_bind_return_right [simp]: "js_bind m js_return = m"
  by (simp add: js_bind_def js_return_def fun_eq_iff split: sum.splits)

lemma js_bind_for_loop_Nil [simp]: "js_bind m (for_loop [] body) = m"
  by (simp add: js_bind_def js_return_def fun_eq_iff split: sum.splits)

lemma js_bind_Inr: "m g = Inr (x, g') \<Longrightarrow> js_bind m f g = f x g'"
  by (simp add: js_bind_def)

lemma for_loop_append:
  "for_loop (xs @ ys) body s = js_bind (for_loop xs body s) (for_loop ys body)"
proof (induction xs arbitrary: s)
  case Nil show ?case by simp
next
  case (Cons x xs)
  show ?case by (simp add: Cons.IH js_bind_def fun_eq_iff split: sum.splits prod.splits)
qed

lemma for_loop_pure:
  assumes "P s" and "\<And>i s. i \<in> set xs \<Longrightarrow> P s \<Longrightarrow> body i s = js_return (f i s) \<and> P (f i s)"
  shows "for_loop xs body s = js_return (fold f xs s) \<and> P (fold f xs s)"
  using assms by (induction xs arbitrary: s) auto

subsection \<open>Cells and shapes\<close>

lemma is_mat_nth: "is_mat r c m \<Longrightarrow> i < r \<Longrightarrow> length (m ! i) = c"
  by (auto simp: is_mat_def list_all_length)

lemma is_mat_length: "is_mat r c m \<Longrightarrow> length m = r"
  by (simp add: is_mat_def)

lemma is_mat_tab [simp]: "is_mat r c (tab r c f)"
  by (simp add: is_mat_def tab_def list_all_length)

lemma tab_nth [simp]: "i < r \<Longrightarrow> j < c \<Longrightarrow> tab r c f ! i ! j = f i j"
  by (simp add: tab_def)

lemma is_mat_eqI:
  assumes "is_mat r c A" "is_mat r c B" "\<And>i j. i < r \<Longrightarrow> j < c \<Longrightarrow> A ! i ! j = B ! i ! j"
  shows "A = B"
proof (rule nth_equalityI)
  show "length A = length B" using assms by (simp add: is_mat_def)
next
  fix i assume "i < length A"
  then have i: "i < r" using assms by (simp add: is_mat_def)
  show "A ! i = B ! i"
    by (rule nth_equalityI) (use assms i in \<open>simp_all add: is_mat_nth\<close>)
qed

lemma is_mat_upd: "is_mat r c m \<Longrightarrow> i < r \<Longrightarrow> j < c \<Longrightarrow> is_mat r c (m[i := (m ! i)[j := v]])"
  by (auto simp: is_mat_def list_all_length nth_list_update)

lemma size_m_mat: "is_mat r c m \<Longrightarrow> 0 < r \<Longrightarrow> size_m m = js_return (r, c)"
  by (cases m) (auto simp: size_m_def is_mat_def)

lemma get_mat: "is_mat r c m \<Longrightarrow> i < r \<Longrightarrow> j < c \<Longrightarrow> get m i j = js_return (m ! i ! j)"
  by (simp add: get_def is_mat_nth is_mat_length)

lemma set_m_mat:
  "is_mat r c m \<Longrightarrow> i < r \<Longrightarrow> j < c \<Longrightarrow> set_m m i j v = js_return (m[i := (m ! i)[j := v]])"
  by (simp add: set_m_def is_mat_nth is_mat_length)

subsection \<open>Loops that write every cell\<close>

text \<open>
  Every method of the matrix engine runs two nested loops over the rows and columns of a
  matrix and writes one cell per round. \<open>fill_loop\<close> is the case where the value
  written does not depend on the matrix being filled, \<open>map_loop\<close> the in-place case
  where it is a function of the cell overwritten.
\<close>

lemma upd_app_drop:
  "k < length xs \<Longrightarrow> length ys = k \<Longrightarrow> (ys @ drop k xs)[k := v] = (ys @ [v]) @ drop (Suc k) xs"
  by (simp add: list_update_append Cons_nth_drop_Suc [symmetric])

lemma fill_row:
  assumes "is_mat r c m" "i < r" "k \<le> c"
  shows "fold (\<lambda>j m. m[i := (m ! i)[j := f j]]) [0..<k] m = m[i := map f [0..<k] @ drop k (m ! i)]"
  using assms(3)
proof (induction k)
  case 0 show ?case by simp
next
  case (Suc k)
  have len: "length (m ! i) = c" using assms by (simp add: is_mat_nth)
  have i: "i < length m" using assms by (simp add: is_mat_def)
  have "(map f [0..<k] @ drop k (m ! i))[k := f k] = map f [0..<Suc k] @ drop (Suc k) (m ! i)"
    using Suc.prems len upd_app_drop [of k "m ! i" "map f [0..<k]" "f k"] by simp
  then show ?case using Suc i by simp
qed

lemma fill_rows:
  assumes "length m = r" "k \<le> r"
  shows "fold (\<lambda>i m. m[i := h i]) [0..<k] m = map h [0..<k] @ drop k m"
  using assms(2)
proof (induction k)
  case 0 show ?case by simp
next
  case (Suc k)
  have "(map h [0..<k] @ drop k m)[k := h k] = map h [0..<Suc k] @ drop (Suc k) m"
    using Suc.prems assms(1) upd_app_drop [of k m "map h [0..<k]" "h k"] by simp
  then show ?case using Suc by simp
qed

lemma fill_loop:
  assumes m: "is_mat r c res"
    and body: "\<And>i j res. i < r \<Longrightarrow> j < c \<Longrightarrow> is_mat r c res \<Longrightarrow>
                 body i j res = js_return (res[i := (res ! i)[j := f i j]])"
  shows "for_loop [0..<r] (\<lambda>i. for_loop [0..<c] (body i)) res = js_return (tab r c f)"
proof -
  have inner: "for_loop [0..<c] (body i) res' = js_return (res'[i := map (f i) [0..<c]])
                 \<and> is_mat r c (res'[i := map (f i) [0..<c]])"
    if "i < r" "is_mat r c res'" for i res'
  proof -
    have "for_loop [0..<c] (body i) res' = js_return (fold (\<lambda>j m. m[i := (m ! i)[j := f i j]]) [0..<c] res')
            \<and> is_mat r c (fold (\<lambda>j m. m[i := (m ! i)[j := f i j]]) [0..<c] res')"
      by (rule for_loop_pure [where P = "is_mat r c"]) (use that body in \<open>auto simp: is_mat_upd\<close>)
    moreover have "fold (\<lambda>j m. m[i := (m ! i)[j := f i j]]) [0..<c] res' = res'[i := map (f i) [0..<c]]"
      using fill_row [OF that(2) that(1), of c "f i"] that by (simp add: is_mat_nth)
    ultimately show ?thesis by simp
  qed
  have "for_loop [0..<r] (\<lambda>i. for_loop [0..<c] (body i)) res
          = js_return (fold (\<lambda>i m. m[i := map (f i) [0..<c]]) [0..<r] res)
        \<and> is_mat r c (fold (\<lambda>i m. m[i := map (f i) [0..<c]]) [0..<r] res)"
    by (rule for_loop_pure [where P = "is_mat r c"]) (use m inner in auto)
  moreover have "fold (\<lambda>i m. m[i := map (f i) [0..<c]]) [0..<r] res = tab r c f"
    using fill_rows [of res r r "\<lambda>i. map (f i) [0..<c]"] m by (simp add: is_mat_def tab_def)
  ultimately show ?thesis by simp
qed

lemma map_loop_row:
  assumes "is_mat r c m" "i < r" "k \<le> c"
  shows "fold (\<lambda>j m. m[i := (m ! i)[j := h (m ! i ! j)]]) [0..<k] m
           = m[i := map h (take k (m ! i)) @ drop k (m ! i)]"
  using assms(3)
proof (induction k)
  case 0 show ?case by simp
next
  case (Suc k)
  have len: "length (m ! i) = c" using assms by (simp add: is_mat_nth)
  have i: "i < length m" using assms by (simp add: is_mat_def)
  have "(map h (take k (m ! i)) @ drop k (m ! i))[k := h (m ! i ! k)]
          = map h (take (Suc k) (m ! i)) @ drop (Suc k) (m ! i)"
    using Suc.prems len upd_app_drop [of k "m ! i" "map h (take k (m ! i))" "h (m ! i ! k)"]
    by (simp add: take_Suc_conv_app_nth)
  moreover have "(map h (take k (m ! i)) @ drop k (m ! i)) ! k = m ! i ! k"
    using Suc.prems len by (simp add: nth_append)
  ultimately show ?case using Suc i by simp
qed

lemma map_loop:
  assumes m: "is_mat r c this"
    and body: "\<And>i j m. i < r \<Longrightarrow> j < c \<Longrightarrow> is_mat r c m \<Longrightarrow>
                 body i j m = js_return (m[i := (m ! i)[j := h (m ! i ! j)]])"
  shows "for_loop [0..<r] (\<lambda>i. for_loop [0..<c] (body i)) this = js_return (map (map h) this)"
proof -
  have inner: "for_loop [0..<c] (body i) m = js_return (m[i := map h (m ! i)])
                 \<and> is_mat r c (m[i := map h (m ! i)])"
    if "i < r" "is_mat r c m" for i m
  proof -
    have "for_loop [0..<c] (body i) m = js_return (fold (\<lambda>j m. m[i := (m ! i)[j := h (m ! i ! j)]]) [0..<c] m)
            \<and> is_mat r c (fold (\<lambda>j m. m[i := (m ! i)[j := h (m ! i ! j)]]) [0..<c] m)"
      by (rule for_loop_pure [where P = "is_mat r c"]) (use that body in \<open>auto simp: is_mat_upd\<close>)
    moreover have "fold (\<lambda>j m. m[i := (m ! i)[j := h (m ! i ! j)]]) [0..<c] m = m[i := map h (m ! i)]"
      using map_loop_row [OF that(2) that(1), of c h] that by (simp add: is_mat_nth)
    ultimately show ?thesis by simp
  qed
  have outer: "k \<le> r \<Longrightarrow> for_loop [0..<k] (\<lambda>i. for_loop [0..<c] (body i)) this
          = js_return (map (map h) (take k this) @ drop k this)
        \<and> is_mat r c (map (map h) (take k this) @ drop k this)" for k
  proof (induction k)
    case 0 then show ?case using m by simp
  next
    case (Suc k)
    let ?m = "map (map h) (take k this) @ drop k this"
    have len: "length this = r" using m by (simp add: is_mat_def)
    have k: "?m ! k = this ! k" using Suc.prems len by (simp add: nth_append)
    have "?m[k := map h (?m ! k)] = map (map h) (take (Suc k) this) @ drop (Suc k) this"
      unfolding k using Suc.prems len upd_app_drop [of k this "map (map h) (take k this)" "map h (this ! k)"]
      by (simp add: take_Suc_conv_app_nth)
    then show ?case using Suc inner [of k ?m] by (simp add: for_loop_append)
  qed
  show ?thesis using outer [of r] m by (simp add: is_mat_def)
qed

subsection \<open>The constructor and \<^verbatim>\<open>randomise\<close>\<close>

lemma random_eq: "random g = Inr (g 0, rdrop 1 g)"
  by (simp add: random_def rdrop_def)

lemma rdrop_rdrop [simp]: "rdrop a (rdrop b g) = rdrop (a + b) g"
  by (simp add: rdrop_def fun_eq_iff add.assoc)

lemma rdrop_0 [simp]: "rdrop 0 g = g"
  by (simp add: rdrop_def)

lemma rdrop_at: "rdrop k g 0 = g k" "rdrop (k * c) g j = g (k * c + j)"
  by (simp_all add: rdrop_def add.commute)

lemma randomise_row:
  assumes "is_mat r c m" "i < r" "k \<le> c"
  shows "for_loop [0..<k] (\<lambda>j this. js_bind random (\<lambda>x. set_m this i j (x * 10 - 5))) m g
           = Inr (m[i := map (\<lambda>j. g j * 10 - 5) [0..<k] @ drop k (m ! i)], rdrop k g)"
  using assms(3)
proof (induction k)
  case 0 show ?case by (simp add: js_return_def)
next
  case (Suc k)
  let ?m = "m[i := map (\<lambda>j. g j * 10 - 5) [0..<k] @ drop k (m ! i)]"
  have len: "length (m ! i) = c" using assms by (simp add: is_mat_nth)
  have i: "i < length m" using assms by (simp add: is_mat_def)
  have mat: "is_mat r c ?m"
    using assms Suc.prems len by (auto simp: is_mat_def list_all_length nth_list_update)
  have upd: "(map (\<lambda>j. g j * 10 - 5) [0..<k] @ drop k (m ! i))[k := g k * 10 - 5]
          = map (\<lambda>j. g j * 10 - 5) [0..<Suc k] @ drop (Suc k) (m ! i)"
    using Suc.prems len upd_app_drop [of k "m ! i" "map (\<lambda>j. g j * 10 - 5) [0..<k]" "g k * 10 - 5"] by simp
  have "for_loop [0..<Suc k] (\<lambda>j this. js_bind random (\<lambda>x. set_m this i j (x * 10 - 5))) m g
          = js_bind random (\<lambda>x. set_m ?m i k (x * 10 - 5)) (rdrop k g)"
    using Suc by (simp add: for_loop_append js_bind_Inr)
  also have "\<dots> = set_m ?m i k (g k * 10 - 5) (rdrop (Suc k) g)"
    by (simp add: js_bind_Inr [OF random_eq] rdrop_at)
  also have "\<dots> = Inr (?m[i := (?m ! i)[k := g k * 10 - 5]], rdrop (Suc k) g)"
    using set_m_mat [OF mat assms(2), of k] Suc.prems by (simp add: js_return_def)
  finally show ?case using upd i by simp
qed

lemma randomise_mat:
  assumes m: "is_mat r c m" and r: "0 < r"
  shows "randomise m g = Inr (tab r c (\<lambda>i j. g (i * c + j) * 10 - 5), rdrop (r * c) g)"
proof -
  let ?row = "\<lambda>g i. map (\<lambda>j. g (i * c + j) * 10 - 5) [0..<c]"
  have outer: "k \<le> r \<Longrightarrow>
      for_loop [0..<k] (\<lambda>i. for_loop [0..<c] (\<lambda>j this. js_bind random (\<lambda>x. set_m this i j (x * 10 - 5)))) m g
        = Inr (map (?row g) [0..<k] @ drop k m, rdrop (k * c) g)" for k
  proof (induction k)
    case 0 show ?case by (simp add: js_return_def)
  next
    case (Suc k)
    let ?m = "map (?row g) [0..<k] @ drop k m"
    have len: "length m = r" using m by (simp add: is_mat_def)
    have mat: "is_mat r c ?m"
      using m Suc.prems by (auto simp: is_mat_def list_all_length nth_append)
    have "?m[k := map (\<lambda>j. rdrop (k * c) g j * 10 - 5) [0..<c] @ drop c (?m ! k)]
            = map (?row g) [0..<Suc k] @ drop (Suc k) m"
      using Suc.prems len mat upd_app_drop [of k m "map (?row g) [0..<k]" "?row g k"]
      by (simp add: is_mat_nth rdrop_at)
    then show ?case
      using Suc randomise_row [OF mat, of k c "rdrop (k * c) g"]
      by (simp add: for_loop_append js_bind_Inr add.commute)
  qed
  have "drop r m = []" using m by (simp add: is_mat_def)
  then show ?thesis
    using outer [of r] by (simp add: randomise_def size_m_mat [OF m r] tab_def)
qed

lemma is_mat_replicate [simp]: "is_mat r c (replicate r (replicate c v))"
  by (simp add: is_mat_def list_all_length)

lemma Matrix_Some: "Matrix r c (Some v) = js_return (replicate r (replicate c v))"
  by (simp add: Matrix_def)

lemma Matrix_None:
  "0 < r \<Longrightarrow> Matrix r c None g = Inr (tab r c (\<lambda>i j. g (i * c + j) * 10 - 5), rdrop (r * c) g)"
  by (simp add: Matrix_def randomise_mat)

lemma Matrix_None_0: "Matrix 0 c None = js_throw TypeError"
  by (simp add: Matrix_def randomise_def size_m_def)

subsection \<open>The operations\<close>

text \<open>
  On matrices with at least one row, every operation returns the matrix that the
  algebra names; the operations that allocate their result by \<^verbatim>\<open>new Matrix(r, c)\<close>
  consume \<open>r * c\<close> random numbers, all overwritten.
\<close>

lemma nrows_mat: "is_mat r c m \<Longrightarrow> nrows m = r"
  by (simp add: nrows_def is_mat_def)

lemma ncols_mat: "is_mat r c m \<Longrightarrow> 0 < r \<Longrightarrow> ncols m = c"
  by (cases m) (auto simp: ncols_def is_mat_def)

lemma upd_entry:
  "is_mat r c m \<Longrightarrow> i < r \<Longrightarrow> j < c \<Longrightarrow> a < r \<Longrightarrow> b < c \<Longrightarrow>
     m[i := (m ! i)[j := v]] ! a ! b = (if a = i \<and> b = j then v else m ! a ! b)"
  by (auto simp: is_mat_def list_all_length nth_list_update)

lemma map_map_tab:
  assumes "is_mat r c m"
  shows "map (map h) m = tab r c (\<lambda>i j. h (m ! i ! j))"
proof (rule is_mat_eqI [of r c])
  show "is_mat r c (map (map h) m)"
    using assms by (auto simp: is_mat_def list_all_length)
  fix i j assume "i < r" "j < c"
  then show "map (map h) m ! i ! j = tab r c (\<lambda>i j. h (m ! i ! j)) ! i ! j"
    using assms by (simp add: is_mat_def list_all_length)
qed simp

lemma Matrix_None_bind:
  "0 < r \<Longrightarrow> js_bind (Matrix r c None) f g
     = f (tab r c (\<lambda>i j. g (i * c + j) * 10 - 5)) (rdrop (r * c) g)"
  by (simp add: js_bind_Inr [OF Matrix_None])

lemma js_return_apply: "js_return x g = Inr (x, g)"
  by (simp add: js_return_def)

lemma fold_sum: "fold (\<lambda>k t. t + f k) [0..<n] (s::real) = s + sum f {..<n}"
  by (induction n) simp_all

lemma clone_eq [simp]: "clone this matB = matB"
proof -
  have "k \<le> length matB \<Longrightarrow> fold (\<lambda>i data. data[i := matB ! i]) [0..<k] matB = matB" for k
    by (induction k) simp_all
  then show ?thesis by (simp add: clone_def)
qed

lemma add_mat:
  assumes A: "is_mat r c A" and B: "is_mat r c B" and r: "0 < r"
  shows "add A B g = Inr (Mat (mat_add A B), rdrop (r * c) g)"
proof -
  have "for_loop [0..<r] (\<lambda>i. for_loop [0..<c] (\<lambda>j result.
          js_bind (get A i j) (\<lambda>a. js_bind (get B i j) (\<lambda>b. set_m result i j (a + b))))) res
        = js_return (tab r c (\<lambda>i j. A ! i ! j + B ! i ! j))" if "is_mat r c res" for res
    by (rule fill_loop [OF that]) (simp add: get_mat [OF A] get_mat [OF B] set_m_mat)
  then have "add A B g = js_return (Mat (mat_add A B)) (rdrop (r * c) g)"
    by (simp add: add_def size_m_mat [OF A r] size_m_mat [OF B r] Matrix_None_bind [OF r]
        mat_add_def nrows_mat [OF A] ncols_mat [OF A r])
  then show ?thesis by (simp add: js_return_apply)
qed

lemma add_mismatch:
  assumes "is_mat r c A" "is_mat r' c' B" "0 < r" "0 < r'" "r \<noteq> r' \<or> c \<noteq> c'"
  shows "add A B = js_return JFalse"
  using assms by (auto simp: add_def size_m_mat [OF assms(1,3)] size_m_mat [OF assms(2,4)])

lemma subtract_mat:
  assumes A: "is_mat r c A" and B: "is_mat r c B" and r: "0 < r"
  shows "subtract A B g = Inr (Mat (mat_sub A B), rdrop (r * c) g)"
proof -
  have "for_loop [0..<r] (\<lambda>i. for_loop [0..<c] (\<lambda>j result.
          js_bind (get A i j) (\<lambda>a. js_bind (get B i j) (\<lambda>b. set_m result i j (a - b))))) res
        = js_return (tab r c (\<lambda>i j. A ! i ! j - B ! i ! j))" if "is_mat r c res" for res
    by (rule fill_loop [OF that]) (simp add: get_mat [OF A] get_mat [OF B] set_m_mat)
  then have "subtract A B g = js_return (Mat (mat_sub A B)) (rdrop (r * c) g)"
    by (simp add: subtract_def size_m_mat [OF A r] size_m_mat [OF B r] Matrix_None_bind [OF r]
        mat_sub_def nrows_mat [OF A] ncols_mat [OF A r])
  then show ?thesis by (simp add: js_return_apply)
qed

lemma subtract_mismatch:
  assumes "is_mat r c A" "is_mat r' c' B" "0 < r" "0 < r'" "r \<noteq> r' \<or> c \<noteq> c'"
  shows "subtract A B = js_return JFalse"
  using assms by (auto simp: subtract_def size_m_mat [OF assms(1,3)] size_m_mat [OF assms(2,4)])

lemma hadamard_mat:
  assumes A: "is_mat r c A" and B: "is_mat r c B" and r: "0 < r"
  shows "hadamard A B g = Inr (Mat (mat_had A B), rdrop (r * c) g)"
proof -
  have "for_loop [0..<r] (\<lambda>i. for_loop [0..<c] (\<lambda>j result.
          js_bind (get A i j) (\<lambda>a. js_bind (get B i j) (\<lambda>b. set_m result i j (a * b))))) res
        = js_return (tab r c (\<lambda>i j. A ! i ! j * B ! i ! j))" if "is_mat r c res" for res
    by (rule fill_loop [OF that]) (simp add: get_mat [OF A] get_mat [OF B] set_m_mat)
  then have "hadamard A B g = js_return (Mat (mat_had A B)) (rdrop (r * c) g)"
    by (simp add: hadamard_def size_m_mat [OF A r] size_m_mat [OF B r] Matrix_None_bind [OF r]
        mat_had_def nrows_mat [OF A] ncols_mat [OF A r])
  then show ?thesis by (simp add: js_return_apply)
qed

lemma hadamard_mismatch:
  assumes "is_mat r c A" "is_mat r' c' B" "0 < r" "0 < r'" "r \<noteq> r' \<or> c \<noteq> c'"
  shows "hadamard A B = js_return JFalse"
  using assms by (auto simp: hadamard_def size_m_mat [OF assms(1,3)] size_m_mat [OF assms(2,4)])

lemma scalarMult_mat:
  assumes A: "is_mat r c A" and r: "0 < r"
  shows "scalarMult A k = js_return (mat_scale k A)"
proof -
  have "for_loop [0..<r] (\<lambda>i. for_loop [0..<c] (\<lambda>j this.
          js_bind (get this i j) (\<lambda>x. set_m this i j (x * k)))) A
        = js_return (map (map (\<lambda>x. x * k)) A)"
    by (rule map_loop [OF A]) (simp add: get_mat set_m_mat)
  then show ?thesis
    by (simp add: scalarMult_def size_m_mat [OF A r] map_map_tab [OF A]
        mat_scale_def nrows_mat [OF A] ncols_mat [OF A r] mult.commute)
qed

lemma apply_m_mat:
  assumes A: "is_mat r c A" and r: "0 < r"
  shows "apply_m A f = js_return (mat_map f A)"
proof -
  have "for_loop [0..<r] (\<lambda>i. for_loop [0..<c] (\<lambda>j this.
          js_bind (get this i j) (\<lambda>x. set_m this i j (f x)))) A
        = js_return (map (map f) A)"
    by (rule map_loop [OF A]) (simp add: get_mat set_m_mat)
  then show ?thesis
    by (simp add: apply_m_def size_m_mat [OF A r] map_map_tab [OF A]
        mat_map_def nrows_mat [OF A] ncols_mat [OF A r])
qed

lemma transpose_col:
  assumes "is_mat C R other" "r < R" "k \<le> C"
  shows "fold (\<lambda>c other. other[c := (other ! c)[r := f c]]) [0..<k] other
           = tab C R (\<lambda>c' r'. if r' = r \<and> c' < k then f c' else other ! c' ! r')"
  using assms(3)
proof (induction k)
  case 0
  have "other = tab C R (\<lambda>c' r'. other ! c' ! r')"
    by (rule is_mat_eqI [OF assms(1)]) simp_all
  then show ?case by simp
next
  case (Suc k)
  let ?t = "tab C R (\<lambda>c' r'. if r' = r \<and> c' < k then f c' else other ! c' ! r')"
  have "?t[k := (?t ! k)[r := f k]]
          = tab C R (\<lambda>c' r'. if r' = r \<and> c' < Suc k then f c' else other ! c' ! r')"
  proof (rule is_mat_eqI [of C R])
    show "is_mat C R (?t[k := (?t ! k)[r := f k]])"
      using Suc.prems assms(2) by (intro is_mat_upd) simp_all
    fix i j assume "i < C" "j < R"
    then show "?t[k := (?t ! k)[r := f k]] ! i ! j
                 = tab C R (\<lambda>c' r'. if r' = r \<and> c' < Suc k then f c' else other ! c' ! r') ! i ! j"
      using Suc.prems assms(2) by (simp add: upd_entry [of C R] less_Suc_eq)
  qed simp
  then show ?case using Suc by simp
qed

lemma transpose_m_mat:
  assumes A: "is_mat r c A" and r: "0 < r"
  shows "transpose_m A = js_return (mat_T A)"
proof -
  let ?body = "\<lambda>i j other. js_bind (get A i j) (\<lambda>x. set_m other j i x)"
  let ?inv = "\<lambda>k. tab c r (\<lambda>c' r'. if r' < k then A ! r' ! c' else 0)"
  have inner: "for_loop [0..<c] (?body i) other
                = js_return (tab c r (\<lambda>c' r'. if r' = i then A ! i ! c' else other ! c' ! r'))"
    if "i < r" "is_mat c r other" for i other
  proof -
    have "for_loop [0..<c] (?body i) other
            = js_return (fold (\<lambda>j other. other[j := (other ! j)[i := A ! i ! j]]) [0..<c] other)
          \<and> is_mat c r (fold (\<lambda>j other. other[j := (other ! j)[i := A ! i ! j]]) [0..<c] other)"
      by (rule for_loop_pure [where P = "is_mat c r"])
         (use that in \<open>auto simp: get_mat [OF A] set_m_mat is_mat_upd\<close>)
    moreover have "tab c r (\<lambda>c' r'. if r' = i \<and> c' < c then A ! i ! c' else other ! c' ! r')
                     = tab c r (\<lambda>c' r'. if r' = i then A ! i ! c' else other ! c' ! r')"
      by (rule is_mat_eqI [of c r]) simp_all
    ultimately show ?thesis
      using transpose_col [OF that(2) that(1), of c "\<lambda>j. A ! i ! j"] by simp
  qed
  have outer: "k \<le> r \<Longrightarrow> for_loop [0..<k] (\<lambda>i. for_loop [0..<c] (?body i))
                  (replicate c (replicate r 0)) = js_return (?inv k)" for k
  proof (induction k)
    case 0
    have "replicate c (replicate r 0) = ?inv 0"
      by (rule is_mat_eqI [of c r]) simp_all
    then show ?case by simp
  next
    case (Suc k)
    have "tab c r (\<lambda>c' r'. if r' = k then A ! k ! c' else ?inv k ! c' ! r') = ?inv (Suc k)"
      by (rule is_mat_eqI [of c r]) (auto simp: less_Suc_eq)
    then show ?case using Suc inner [of k "?inv k"] by (simp add: for_loop_append)
  qed
  have "?inv r = mat_T A"
    unfolding mat_T_def nrows_mat [OF A] ncols_mat [OF A r]
    by (rule is_mat_eqI [of c r]) simp_all
  then show ?thesis
    using outer [of r] by (simp add: transpose_m_def size_m_mat [OF A r] Matrix_Some)
qed

lemma mult_mat:
  assumes A: "is_mat r n A" and B: "is_mat n c B" and r: "0 < r" and n: "0 < n"
  shows "mult A B g = Inr (Mat (mat_mul A B), rdrop (r * c) g)"
proof -
  let ?cell = "\<lambda>i j. \<Sum>k<n. A ! i ! k * B ! k ! j"
  have inner: "for_loop [0..<n] (\<lambda>k total. js_bind (get A i k) (\<lambda>a. js_bind (get B k j) (\<lambda>b.
                  js_return (total + a * b)))) 0 = js_return (?cell i j)"
    if "i < r" "j < c" for i j
  proof -
    have "for_loop [0..<n] (\<lambda>k total. js_bind (get A i k) (\<lambda>a. js_bind (get B k j) (\<lambda>b.
                  js_return (total + a * b)))) 0
            = js_return (fold (\<lambda>k t. t + A ! i ! k * B ! k ! j) [0..<n] 0) \<and> True"
      by (rule for_loop_pure [where P = "\<lambda>_. True"])
         (use that in \<open>simp_all add: get_mat [OF A] get_mat [OF B]\<close>)
    then show ?thesis by (simp add: fold_sum)
  qed
  have loop: "for_loop [0..<r] (\<lambda>i. for_loop [0..<c] (\<lambda>j result.
          js_bind (for_loop [0..<n] (\<lambda>k total. js_bind (get A i k) (\<lambda>a. js_bind (get B k j) (\<lambda>b.
                  js_return (total + a * b)))) 0) (\<lambda>total. set_m result i j total))) res
        = js_return (tab r c ?cell)" if "is_mat r c res" for res
    by (rule fill_loop [OF that]) (simp add: inner set_m_mat)
  obtain a0 A' where A0: "A = a0 # A'" "length a0 = n"
    using A r by (cases A) (auto simp: is_mat_def)
  obtain b0 B' where B0: "B = b0 # B'" "length b0 = c"
    using B n by (cases B) (auto simp: is_mat_def)
  have lens: "length A = r" "length B = n" using A B by (simp_all add: is_mat_def)
  have "mult A B g = js_return (Mat (mat_mul A B)) (rdrop (r * c) g)"
    unfolding mult_def
    using lens loop
    by (simp add: A0 B0 Matrix_None_bind [OF r] Let_def mat_mul_def nrows_def ncols_def)
  then show ?thesis by (simp add: js_return_apply)
qed

lemma mult_mismatch:
  assumes "is_mat r n A" "is_mat n' c B" "0 < r" "n \<noteq> n'"
  shows "mult A B = js_return JFalse"
  using assms by (cases A) (auto simp: mult_def is_mat_def)

section \<open>The network engine, step by step\<close>

subsection \<open>Loops with an invariant\<close>

lemma js_bind_apply: "js_bind m f g = (case m g of Inl e \<Rightarrow> Inl e | Inr (x, g') \<Rightarrow> f x g')"
  by (simp add: js_bind_def)

lemma for_loop_upt_inv:
  assumes "I a s" "a \<le> b"
    and step: "\<And>k s g. a \<le> k \<Longrightarrow> k < b \<Longrightarrow> I k s \<Longrightarrow> \<exists>s' g'. body k s g = Inr (s', g') \<and> I (Suc k) s'"
  shows "\<exists>s' g'. for_loop [a..<b] body s g = Inr (s', g') \<and> I b s'"
proof -
  have "a \<le> n \<Longrightarrow> n \<le> b \<Longrightarrow> \<exists>s' g'. for_loop [a..<n] body s g = Inr (s', g') \<and> I n s'" for n
  proof (induction n)
    case 0
    then show ?case using assms(1) by (simp add: js_return_apply)
  next
    case (Suc n)
    show ?case
    proof (cases "a = Suc n")
      case True
      then show ?thesis using assms(1) by (simp add: js_return_apply)
    next
      case False
      then have an: "a \<le> n" using Suc.prems by simp
      then obtain s1 g1 where 1: "for_loop [a..<n] body s g = Inr (s1, g1)" "I n s1"
        using Suc by auto
      obtain s2 g2 where 2: "body n s1 g1 = Inr (s2, g2)" "I (Suc n) s2"
        using step [of n s1 g1] an Suc.prems 1 by auto
      have "for_loop [a..<Suc n] body s g = Inr (s2, g2)"
        using an 1 2 by (simp add: for_loop_append js_bind_apply)
      then show ?thesis using 2 by blast
    qed
  qed
  from this [of b] assms(2) show ?thesis by simp
qed

lemma for_loop_down_inv:
  assumes "I n s"
    and step: "\<And>k s g. k < n \<Longrightarrow> I (Suc k) s \<Longrightarrow> \<exists>s' g'. body k s g = Inr (s', g') \<and> I k s'"
  shows "\<exists>s' g'. for_loop (rev [0..<n]) body s g = Inr (s', g') \<and> I 0 s'"
proof -
  have "m \<le> n \<Longrightarrow> I m s \<Longrightarrow> \<exists>s' g'. for_loop (rev [0..<m]) body s g = Inr (s', g') \<and> I 0 s'" for m s g
  proof (induction m arbitrary: s g)
    case 0
    then show ?case by (simp add: js_return_apply)
  next
    case (Suc m)
    obtain s1 g1 where 1: "body m s g = Inr (s1, g1)" "I m s1"
      using step [of m s g] Suc.prems by auto
    obtain s2 g2 where 2: "for_loop (rev [0..<m]) body s1 g1 = Inr (s2, g2)" "I 0 s2"
      using Suc.IH [of s1 g1] Suc.prems 1 by auto
    have "for_loop (rev [0..<Suc m]) body s g = Inr (s2, g2)"
      using 1 2 by (simp add: js_bind_apply)
    then show ?case using 2 by blast
  qed
  from this [of n s g] assms(1) show ?thesis by simp
qed

lemma for_loop_upt_inv_rng:
  assumes "I a s g" "a \<le> b"
    and step: "\<And>k s g. a \<le> k \<Longrightarrow> k < b \<Longrightarrow> I k s g \<Longrightarrow>
                 \<exists>s' g'. body k s g = Inr (s', g') \<and> I (Suc k) s' g'"
  shows "\<exists>s' g'. for_loop [a..<b] body s g = Inr (s', g') \<and> I b s' g'"
proof -
  have "a \<le> n \<Longrightarrow> n \<le> b \<Longrightarrow> \<exists>s' g'. for_loop [a..<n] body s g = Inr (s', g') \<and> I n s' g'" for n
  proof (induction n)
    case 0
    then show ?case using assms(1) by (simp add: js_return_apply)
  next
    case (Suc n)
    show ?case
    proof (cases "a = Suc n")
      case True
      then show ?thesis using assms(1) by (simp add: js_return_apply)
    next
      case False
      then have an: "a \<le> n" using Suc.prems by simp
      then obtain s1 g1 where 1: "for_loop [a..<n] body s g = Inr (s1, g1)" "I n s1 g1"
        using Suc by auto
      obtain s2 g2 where 2: "body n s1 g1 = Inr (s2, g2)" "I (Suc n) s2 g2"
        using step [of n s1 g1] an Suc.prems 1 by auto
      have "for_loop [a..<Suc n] body s g = Inr (s2, g2)"
        using an 1 2 by (simp add: for_loop_append js_bind_apply)
      then show ?thesis using 2 by blast
    qed
  qed
  from this [of b] assms(2) show ?thesis by simp
qed

subsection \<open>Slots and shapes\<close>

lemma has_shapeD:
  assumes "has_shape r c v"
  shows "v = Mat (mat_val v)" "is_mat r c (mat_val v)"
  using assms by (cases v; simp add: has_shape_def mat_val_def)+

lemma has_shape_Mat [simp]: "has_shape r c (Mat m) = is_mat r c m"
  by (simp add: has_shape_def)

lemma mat_val_Mat [simp]: "mat_val (Mat m) = m"
  by (simp add: mat_val_def)

lemma obj_Mat [simp]: "obj (Mat m) = js_return m"
  by (simp add: obj_def)

lemma js_nth_nat: "i < length xs \<Longrightarrow> js_nth xs (int i) = xs ! i"
  by (simp add: js_nth_def)

lemma js_nth_pred: "0 < i \<Longrightarrow> i \<le> length xs \<Longrightarrow> js_nth xs (int i - 1) = xs ! (i - 1)"
  by (auto simp: js_nth_def nat_diff_distrib')

lemma js_nth_succ: "Suc i < length xs \<Longrightarrow> js_nth xs (int i + 1) = xs ! Suc i"
  by (auto simp: js_nth_def nat_add_distrib)

lemma assign_in [simp]: "i < length xs \<Longrightarrow> assign xs i v = xs[i := v]"
  by (simp add: assign_def)

lemma is_mat_mat_add: "is_mat r c A \<Longrightarrow> 0 < r \<Longrightarrow> is_mat r c (mat_add A B)"
  by (simp add: mat_add_def nrows_mat ncols_mat)

lemma is_mat_mat_sub: "is_mat r c A \<Longrightarrow> 0 < r \<Longrightarrow> is_mat r c (mat_sub A B)"
  by (simp add: mat_sub_def nrows_mat ncols_mat)

lemma is_mat_mat_had: "is_mat r c A \<Longrightarrow> 0 < r \<Longrightarrow> is_mat r c (mat_had A B)"
  by (simp add: mat_had_def nrows_mat ncols_mat)

lemma is_mat_mat_scale: "is_mat r c A \<Longrightarrow> 0 < r \<Longrightarrow> is_mat r c (mat_scale k A)"
  by (simp add: mat_scale_def nrows_mat ncols_mat)

lemma is_mat_mat_map: "is_mat r c A \<Longrightarrow> 0 < r \<Longrightarrow> is_mat r c (mat_map f A)"
  by (simp add: mat_map_def nrows_mat ncols_mat)

lemma is_mat_mat_T: "is_mat r c A \<Longrightarrow> 0 < r \<Longrightarrow> is_mat c r (mat_T A)"
  by (simp add: mat_T_def nrows_mat ncols_mat)

lemma is_mat_mat_mul: "is_mat r n A \<Longrightarrow> is_mat n c B \<Longrightarrow> 0 < n \<Longrightarrow> is_mat r c (mat_mul A B)"
  by (simp add: mat_mul_def nrows_mat ncols_mat)

subsection \<open>Forward propagation\<close>

lemma calculate_mat:
  assumes l: "0 < l" "l < length (activations N)"
    and e: "js_nth (weights N) (int l - 1) = Mat W" "js_nth (activations N) (int l - 1) = Mat a"
      "js_nth (biases N) (int l - 1) = Mat b" "js_nth (Z N) (int l) = Mat z"
    and W: "is_mat r n W" and a: "is_mat n 1 a" and b: "is_mat r 1 b"
    and r: "0 < r" and n: "0 < n"
  shows "calculate N (int l) g =
           Inr ((JUndefined,
                 N\<lparr>Z := (Z N)[l := Mat (mat_add (mat_mul W a) b)],
                   activations := (activations N)[l := Mat (mat_map sigmoid (mat_add (mat_mul W a) b))]\<rparr>),
                rdrop (r + r) g)"
proof -
  have m1: "is_mat r 1 (mat_mul W a)" by (rule is_mat_mat_mul [OF W a n])
  have m2: "is_mat r 1 (mat_add (mat_mul W a) b)" by (rule is_mat_mat_add [OF m1 r])
  note s1 = mult_mat [OF W a r n] and s2 = add_mat [OF m1 b r]
    and s3 = apply_m_mat [OF m2 r]
  show ?thesis
    using l
    by (simp add: calculate_def e js_bind_apply s1 s2 s3 js_return_apply)
qed

lemma wf_net_layer:
  assumes "wf_net N" "l < length (structure N)"
  shows "has_shape (structure N ! l) 1 (activations N ! l)"
    "has_shape (structure N ! l) 1 (Z N ! l)" "0 < structure N ! l"
  using assms by (auto simp: wf_net_def)

lemma wf_net_param:
  assumes "wf_net N" "Suc l < length (structure N)"
  shows "has_shape (structure N ! Suc l) (structure N ! l) (weights N ! l)"
    "has_shape (structure N ! Suc l) 1 (biases N ! l)"
  using assms by (auto simp: wf_net_def shape_inv_def)

lemma wf_net_lengths:
  assumes "wf_net N"
  shows "length (activations N) = length (structure N)" "length (Z N) = length (structure N)"
    "length (weights N) = length (structure N) - 1" "length (biases N) = length (structure N) - 1"
    "0 < length (structure N)"
  using assms by (auto simp: wf_net_def shape_inv_def)

lemma wf_net_layer_update:
  assumes wf: "wf_net N" and l: "l < length (structure N)"
    and z: "is_mat (structure N ! l) 1 z" and a: "is_mat (structure N ! l) 1 a"
  shows "wf_net (N\<lparr>Z := (Z N)[l := Mat z], activations := (activations N)[l := Mat a]\<rparr>)"
  using assms by (auto simp: wf_net_def shape_inv_def nth_list_update)

lemma singleton_update: "length xs = Suc 0 \<Longrightarrow> xs[0 := v] = [v]"
  by (cases xs) simp_all

lemma input_loop:
  assumes a0: "is_mat r 1 a0" and i: "input < length imgData" and len: "r \<le> length (imgData ! input)"
  shows "for_loop [0..<r] (\<lambda>i a0. js_bind (img_at imgData input i) (\<lambda>v. set_m a0 i 0 v)) a0
           = js_return (column (take r (imgData ! input)))"
proof -
  let ?f = "\<lambda>i (m::matrix). m[i := [imgData ! input ! i]]"
  have "for_loop [0..<r] (\<lambda>i a0. js_bind (img_at imgData input i) (\<lambda>v. set_m a0 i 0 v)) a0
          = js_return (fold ?f [0..<r] a0) \<and> is_mat r 1 (fold ?f [0..<r] a0)"
  proof (rule for_loop_pure [where P = "is_mat r 1"])
    show "is_mat r 1 a0" by (rule a0)
    fix k m assume k: "k \<in> set [0..<r]" and m: "is_mat r 1 m"
    then have "length (m ! k) = Suc 0" by (simp add: is_mat_nth)
    then show "js_bind (img_at imgData input k) (\<lambda>v. set_m m k 0 v) = js_return (?f k m)
                 \<and> is_mat r 1 (?f k m)"
      using k m i len is_mat_upd [OF m, of k 0 "imgData ! input ! k"]
      by (simp add: img_at_def set_m_mat [OF m] singleton_update)
  qed
  moreover have "fold ?f [0..<r] a0 = map (\<lambda>i. [imgData ! input ! i]) [0..<r]"
    using fill_rows [of a0 r r "\<lambda>i. [imgData ! input ! i]"] a0 by (simp add: is_mat_def)
  moreover have "map (\<lambda>i. [imgData ! input ! i]) [0..<r] = column (take r (imgData ! input))"
    using len by (intro nth_equalityI) (simp_all add: column_def)
  ultimately show ?thesis by simp
qed

lemma is_mat_column [simp]: "is_mat (length xs) 1 (column xs)"
  by (simp add: is_mat_def column_def list_all_length)

lemma forwardProp_returns:
  assumes wf: "wf_net N" and i: "input < length imgData"
    and len: "structure N ! 0 \<le> length (imgData ! input)"
  shows "\<exists>N' g'. forwardProp imgData N input g = Inr (N', g') \<and> wf_net N' \<and>
           weights N' = weights N \<and> biases N' = biases N \<and> structure N' = structure N \<and>
           \<alpha> N' = \<alpha> N \<and> layerCount N' = layerCount N \<and>
           activations N' ! 0 = Mat (column (take (structure N ! 0) (imgData ! input))) \<and>
           (\<forall>l. 0 < l \<and> l < length (structure N) \<longrightarrow> forward_state N' l)"
proof -
  let ?L = "length (structure N)"
  let ?in = "column (take (structure N ! 0) (imgData ! input))"
  let ?N0 = "N\<lparr>activations := (activations N)[0 := Mat ?in]\<rparr>"
  define I where "I k N' \<longleftrightarrow> wf_net N' \<and>
           weights N' = weights N \<and> biases N' = biases N \<and> structure N' = structure N \<and>
           \<alpha> N' = \<alpha> N \<and> layerCount N' = layerCount N \<and>
           activations N' ! 0 = Mat ?in \<and>
           (\<forall>l. 0 < l \<and> l < k \<longrightarrow> forward_state N' l)" for k N'
  note lens = wf_net_lengths [OF wf]
  note a0 = has_shapeD [OF wf_net_layer(1) [OF wf lens(5)]]
  have in_mat: "is_mat (structure N ! 0) 1 ?in"
    using len by (simp add: is_mat_def column_def list_all_length)
  have wf0: "wf_net ?N0"
    using wf in_mat lens by (auto simp: wf_net_def shape_inv_def nth_list_update)
  have I0: "I 1 ?N0"
    using wf0 lens by (simp add: I_def)
  have step: "\<exists>s' g'. (js_bind (calculate s (int k)) (\<lambda>(_, this). js_return this)) g = Inr (s', g') \<and> I (Suc k) s'"
    if k1: "1 \<le> k" and kL0: "k < ?L" and Ik: "I k s" for k s g
  proof -
    note that = k1 kL0 Ik
    from that have wfs: "wf_net s" and eqs: "structure s = structure N" by (simp_all add: I_def)
    note ls = wf_net_lengths [OF wfs]
    obtain k' where k': "k = Suc k'" using k1 by (cases k) simp_all
    have kL: "k < length (structure s)" "Suc k' < length (structure s)" "k' < length (structure s)"
      using that k' eqs by simp_all
    note W = has_shapeD [OF wf_net_param(1) [OF wfs kL(2)]]
      and b = has_shapeD [OF wf_net_param(2) [OF wfs kL(2)]]
      and a = has_shapeD [OF wf_net_layer(1) [OF wfs kL(3)]]
      and z = has_shapeD [OF wf_net_layer(2) [OF wfs kL(1)]]
    let ?z = "mat_add (mat_mul (mat_val (weights s ! k')) (mat_val (activations s ! k')))
                (mat_val (biases s ! k'))"
    let ?s' = "s\<lparr>Z := (Z s)[k := Mat ?z], activations := (activations s)[k := Mat (mat_map sigmoid ?z)]\<rparr>"
    have e: "js_nth (weights s) (int k - 1) = Mat (mat_val (weights s ! k'))"
      "js_nth (activations s) (int k - 1) = Mat (mat_val (activations s ! k'))"
      "js_nth (biases s) (int k - 1) = Mat (mat_val (biases s ! k'))"
      "js_nth (Z s) (int k) = Mat (mat_val (Z s ! k))"
    proof -
      have k'': "k - 1 = k'" using k' by simp
      have "js_nth (weights s) (int k - 1) = weights s ! (k - 1)"
        by (rule js_nth_pred) (use kL ls k1 in simp_all)
      then show "js_nth (weights s) (int k - 1) = Mat (mat_val (weights s ! k'))"
        using W(1) k'' by simp
      have "js_nth (activations s) (int k - 1) = activations s ! (k - 1)"
        by (rule js_nth_pred) (use kL ls k1 in simp_all)
      then show "js_nth (activations s) (int k - 1) = Mat (mat_val (activations s ! k'))"
        using a(1) k'' by simp
      have "js_nth (biases s) (int k - 1) = biases s ! (k - 1)"
        by (rule js_nth_pred) (use kL ls k1 in simp_all)
      then show "js_nth (biases s) (int k - 1) = Mat (mat_val (biases s ! k'))"
        using b(1) k'' by simp
      have "js_nth (Z s) (int k) = Z s ! k"
        by (rule js_nth_nat) (use kL ls in simp)
      then show "js_nth (Z s) (int k) = Mat (mat_val (Z s ! k))"
        using z(1) by simp
    qed
    have pos: "0 < structure s ! Suc k'" "0 < structure s ! k'"
      using wf_net_layer(3) [OF wfs] kL by simp_all
    have calc: "calculate s (int k) g = Inr ((JUndefined, ?s'),
        rdrop (structure s ! Suc k' + structure s ! Suc k') g)"
      by (rule calculate_mat [OF _ _ e W(2) a(2) b(2) pos]) (use kL ls k' in simp_all)
    have zm: "is_mat (structure s ! k) 1 ?z"
      unfolding k'
      by (intro is_mat_mat_add is_mat_mat_mul [OF W(2) a(2)] pos)
    have wf': "wf_net ?s'"
      using wf_net_layer_update [OF wfs kL(1) zm is_mat_mat_map [OF zm]] pos k' by simp
    have pre: "pre_activation ?s' l = pre_activation s l" if "0 < l" "l \<le> k" for l
      using that by (simp add: pre_activation_def)
    have "I (Suc k) ?s'"
      unfolding I_def
    proof (intro conjI allI impI)
      fix l assume l: "0 < l \<and> l < Suc k"
      show "forward_state ?s' l"
      proof (cases "l = k")
        case True
        then show ?thesis
          using kL ls pre [of k] l k' by (simp add: forward_state_def) (simp add: pre_activation_def)
      next
        case False
        then have "forward_state s l" using l \<open>I k s\<close> by (simp add: I_def)
        then show ?thesis using False l pre [of l] by (simp add: forward_state_def)
      qed
    qed (use \<open>I k s\<close> wf' that in \<open>simp_all add: I_def\<close>)
    then show ?thesis
      by (simp add: js_bind_apply calc js_return_apply)
  qed
  have loop: "\<exists>s' g'. for_loop [1..<?L] (\<lambda>l this.
       js_bind (calculate this (int l)) (\<lambda>(_, this). js_return this)) ?N0 g1 = Inr (s', g') \<and> I ?L s'" for g1
  proof -
    have L1: "1 \<le> ?L" using lens(5) by (simp add: Suc_le_eq)
    show ?thesis
      by (rule for_loop_upt_inv [where I = I, OF I0 L1]) (rule step)
  qed
  have "js_nth (activations N) 0 = Mat (mat_val (activations N ! 0))"
    using js_nth_nat [of 0 "activations N"] lens a0(1) by simp
  then have "forwardProp imgData N input g = for_loop [1..<?L] (\<lambda>l this.
       js_bind (calculate this (int l)) (\<lambda>(_, this). js_return this)) ?N0 g"
    using lens
    by (simp add: forwardProp_def size_m_mat [OF a0(2) wf_net_layer(3) [OF wf lens(5)]]
        input_loop [OF a0(2) i len])
  then show ?thesis using loop [of g] by (auto simp: I_def)
qed

subsection \<open>Cost\<close>

lemma js_dim_last: "xs \<noteq> [] \<Longrightarrow> js_dim xs (int (length xs) - 1) = last xs"
  by (auto simp: js_dim_def last_conv_nth nat_diff_distrib')

lemma js_nth_last: "xs \<noteq> [] \<Longrightarrow> js_nth xs (int (length xs) - 1) = last xs"
  by (auto simp: js_nth_def last_conv_nth nat_diff_distrib')

lemma getCost_mat:
  assumes s: "structure N \<noteq> []" and len: "length (activations N) = length (structure N)"
    and a: "last (activations N) = Mat a" "is_mat (last (structure N)) 1 a"
    and y: "is_mat (last (structure N)) 1 y" and n: "0 < last (structure N)"
  shows "getCost N y = js_return (cost_sum a y (last (structure N)) / real (last (structure N)))"
proof -
  let ?n = "last (structure N)"
  have ne: "activations N \<noteq> []" using s len by (metis length_0_conv)
  have e: "js_nth (activations N) (int (length (structure N)) - 1) = Mat a"
    using js_nth_last [OF ne] len a(1) by simp
  have "for_loop [0..<?n] (\<lambda>n cost.
             js_bind (obj (js_nth (activations N) (int (length (structure N)) - 1))) (\<lambda>a.
             js_bind (get a n 0) (\<lambda>av.
             js_bind (get y n 0) (\<lambda>yv.
             let val = av - yv; val = val * val in
             js_return (cost + val))))) 0
          = js_return (fold (\<lambda>k t. t + (a ! k ! 0 - y ! k ! 0)\<^sup>2) [0..<?n] 0) \<and> True"
    by (rule for_loop_pure [where P = "\<lambda>_. True"])
       (simp_all add: e get_mat [OF a(2)] get_mat [OF y] power2_eq_square Let_def)
  then show ?thesis
    using n by (simp add: getCost_def js_dim_last [OF s] fold_sum cost_sum_def Let_def)
qed

subsection \<open>Back propagation\<close>

lemma is_mat_replicate1 [simp]: "is_mat n (Suc 0) (replicate n [v])"
  by (simp add: is_mat_def list_all_length)

lemma one_hot_code:
  assumes "d < n"
  shows "(replicate n [0])[d := [1]] = one_hot n d"
proof (rule is_mat_eqI [of n 1])
  show "is_mat n 1 ((replicate n [0::real])[d := [1]])"
    using assms by (simp add: is_mat_def list_all_length nth_list_update)
  show "is_mat n 1 (one_hot n d)" by (simp add: one_hot_def)
  fix i j :: nat assume "i < n" "j < 1"
  then show "(replicate n [0::real])[d := [1]] ! i ! j = one_hot n d ! i ! j"
    using assms by (simp add: one_hot_def nth_list_update)
qed

lemma is_mat_one_hot [simp]: "is_mat n 1 (one_hot n d)"
  by (simp add: one_hot_def)

lemma wf_net_last:
  assumes wf: "wf_net N"
  shows "last (activations N) = Mat (out_layer N)" "is_mat (last (structure N)) 1 (out_layer N)"
    "0 < last (structure N)" "structure N \<noteq> []"
proof -
  note lens = wf_net_lengths [OF wf]
  have L: "length (structure N) - 1 < length (structure N)" using lens by simp
  note a = has_shapeD [OF wf_net_layer(1) [OF wf L]]
  show "structure N \<noteq> []" using lens by simp
  moreover have "activations N \<noteq> []" using lens by (metis length_0_conv less_irrefl)
  ultimately show "last (activations N) = Mat (out_layer N)"
    using a(1) lens by (simp add: last_conv_nth out_layer_def)
  show "is_mat (last (structure N)) 1 (out_layer N)"
    using a(2) lens by (simp add: last_conv_nth out_layer_def)
  show "0 < last (structure N)"
    using wf_net_layer(3) [OF wf L] lens by (simp add: last_conv_nth)
qed

lemma backProp_locals_returns:
  assumes wf: "wf_net N" and i: "index < length labels"
    and d: "labels ! index < last (structure N)"
  shows "\<exists>g'. backProp_locals labels N index g =
           Inr ((one_hot (last (structure N)) (labels ! index),
                 replicate (length (structure N) - 1) (Mat (dCdA N (one_hot (last (structure N)) (labels ! index)))),
                 replicate (length (structure N) - 1) (Mat (dCdA N (one_hot (last (structure N)) (labels ! index)))),
                 AZ_of N (length (structure N)),
                 replicate (length (structure N)) JUndefined), g')"
proof -
  let ?L = "length (structure N)" and ?n = "last (structure N)"
  let ?Y = "one_hot ?n (labels ! index)"
  let ?D = "dCdA N ?Y"
  note lens = wf_net_lengths [OF wf] and lst = wf_net_last [OF wf]
  note z0 = has_shapeD [OF wf_net_layer(2) [OF wf lens(5)]]
  have n0: "0 < structure N ! 0" by (rule wf_net_layer(3) [OF wf lens(5)])
  have Y0: "is_mat ?n 1 (replicate ?n [0::real])" by simp
  have d0: "js_dim (structure N) 0 = structure N ! 0"
    using lens by (simp add: js_dim_def)
  have sub: "is_mat ?n 1 (mat_sub (out_layer N) ?Y)" by (rule is_mat_mat_sub [OF lst(2,3)])
  have eZ0: "js_nth (Z N) 0 = Mat (mat_val (Z N ! 0))"
    using js_nth_nat [of 0 "Z N"] lens z0(1) by simp
  define J where "J k s \<longleftrightarrow> s = (replicate (k - 1) (Mat ?D), replicate (k - 1) (Mat ?D),
       AZ_of N k, replicate k JUndefined)" for k s
  let ?body = "(\<lambda>i (CW, CB, AZ, X).
          js_bind (Matrix (structure N ! i) (structure N ! (i - 1)) (Some 1)) (\<lambda>cw.
          let CW = CW @ [Mat cw] in
          js_bind (obj (js_nth CW (int i - 1))) (\<lambda>cw.
          let CW = CW[i - 1 := Mat (clone cw ?D)] in
          js_bind (Matrix (structure N ! i) 1 (Some 1)) (\<lambda>cb.
          let CB = CB @ [Mat cb] in
          js_bind (obj (js_nth CB (int i - 1))) (\<lambda>cb.
          let CB = CB[i - 1 := Mat (clone cb ?D)] in
          js_bind (Matrix (structure N ! i) 1 (Some 1)) (\<lambda>az.
          let AZ = AZ @ [Mat az] in
          js_bind (obj (js_nth AZ (int i))) (\<lambda>az.
          js_bind (obj (js_nth (Z N) (int i))) (\<lambda>z.
          js_bind (apply_m (clone az z) sigPrime) (\<lambda>az.
          js_return (CW, CB, AZ[i := Mat az], X @ [JUndefined]))))))))))"
  have step: "\<exists>s' g'. ?body k s g = Inr (s', g') \<and> J (Suc k) s'"
    if k1: "1 \<le> k" and kL: "k < ?L" and Jk: "J k s" for k s g
  proof -
    note zk = has_shapeD [OF wf_net_layer(2) [OF wf kL]]
    have nk: "0 < structure N ! k" by (rule wf_net_layer(3) [OF wf kL])
    have eZ: "js_nth (Z N) (int k) = Mat (mat_val (Z N ! k))"
      using js_nth_nat [of k "Z N"] lens kL zk(1) by simp
    have e1: "js_nth (replicate (k - Suc 0) (Mat ?D) @ [Mat m]) (int k - 1) = Mat m" for m
      using k1 js_nth_pred [of k "replicate (k - 1) (Mat ?D) @ [Mat m]"] by (simp add: nth_append)
    have e2: "js_nth (AZ_of N k @ [Mat m]) (int k) = Mat m" for m
      using js_nth_nat [of k "AZ_of N k @ [Mat m]"] by (simp add: AZ_of_def nth_append)
    have r: "(replicate (k - Suc 0) v @ [w])[k - Suc 0 := v] = replicate k v" for v w :: jsval
      using k1 by (cases k) (simp_all add: list_update_append replicate_append_same)
    have az: "(AZ_of N k @ [w])[k := Mat (mat_map sigPrime (mat_val (Z N ! k)))] = AZ_of N (Suc k)" for w
      by (simp add: AZ_of_def list_update_append)
    have "?body k s g = Inr ((replicate k (Mat ?D), replicate k (Mat ?D), AZ_of N (Suc k),
            replicate (Suc k) JUndefined), g)"
      using Jk
      by (simp add: J_def Matrix_Some e1 e2 eZ r az apply_m_mat [OF zk(2) nk] js_return_apply
          replicate_append_same Let_def)
    then show ?thesis by (simp add: J_def)
  qed
  have J1: "J 1 ([], [], [Mat (mat_map sigPrime (mat_val (Z N ! 0)))], [JUndefined])"
    by (simp add: J_def AZ_of_def)
  have L1: "1 \<le> ?L" using lens(5) by (simp add: Suc_le_eq)
  have loop: "\<exists>s' g'. for_loop [1..<?L] ?body
      ([], [], [Mat (mat_map sigPrime (mat_val (Z N ! 0)))], [JUndefined]) g1 = Inr (s', g') \<and> J ?L s'" for g1
    by (rule for_loop_upt_inv [where I = J, OF J1 L1]) (rule step)
  have cost: "getCost N ?Y = js_return (cost_sum (out_layer N) ?Y ?n / real ?n)"
    by (rule getCost_mat [OF lst(4) lens(1) lst(1,2) is_mat_one_hot lst(3)])
  have ane: "activations N \<noteq> []" using lens by (metis length_0_conv less_irrefl)
  have eL: "js_nth (activations N) (int ?L - 1) = Mat (out_layer N)"
    using js_nth_last [OF ane] lens lst(1) by simp
  have "backProp_locals labels N index g =
          js_bind (for_loop [1..<?L] ?body
            ([], [], [Mat (mat_map sigPrime (mat_val (Z N ! 0)))], [JUndefined]))
            (\<lambda>(CW, CB, AZ, X). js_return (?Y, CW, CB, AZ, X)) (rdrop (?n * 1) g)"
    using i d
    by (simp add: backProp_locals_def js_dim_last [OF lst(4)] Matrix_Some set_m_mat [OF Y0]
        one_hot_code cost eL
        js_bind_Inr [OF subtract_mat [OF lst(2) is_mat_one_hot lst(3)]]
        scalarMult_mat [OF sub lst(3)] d0 eZ0 apply_m_mat [OF z0(2) n0] dCdA_def)
  then show ?thesis
    using loop [of "rdrop (?n * 1) g"] by (auto simp: J_def js_bind_apply js_return_apply)
qed

lemma err_signal_mat:
  assumes wf: "wf_net N" and Y: "is_mat (last (structure N)) 1 Y"
  shows "l < length (structure N) \<Longrightarrow> is_mat (structure N ! l) 1 (err_signal N Y l)"
proof (induction "length (structure N) - l" arbitrary: l)
  case 0
  then show ?case by simp
next
  case (Suc d)
  note pos = wf_net_layer(3) [OF wf Suc.prems]
  show ?case
  proof (cases "Suc l < length (structure N)")
    case True
    note W = has_shapeD [OF wf_net_param(1) [OF wf True]]
    have x: "is_mat (structure N ! Suc l) 1 (err_signal N Y (Suc l))"
      using Suc.hyps True by (intro Suc.hyps(1)) simp_all
    have "is_mat (structure N ! l) (structure N ! Suc l) (mat_T (mat_val (weights N ! l)))"
      by (rule is_mat_mat_T [OF W(2) wf_net_layer(3) [OF wf True]])
    then have "is_mat (structure N ! l) 1
        (mat_mul (mat_T (mat_val (weights N ! l))) (err_signal N Y (Suc l)))"
      by (rule is_mat_mat_mul [OF _ x wf_net_layer(3) [OF wf True]])
    then show ?thesis
      using True pos by (subst err_signal.simps) (simp add: is_mat_mat_had)
  next
    case False
    then have l: "l = length (structure N) - 1" using Suc.prems by simp
    have "is_mat (structure N ! l) 1 (mat_val (activations N ! l))"
      by (rule has_shapeD(2) [OF wf_net_layer(1) [OF wf Suc.prems]])
    then show ?thesis
      using False pos by (subst err_signal.simps) (simp add: is_mat_mat_had is_mat_mat_scale is_mat_mat_sub)
  qed
qed

lemma js_nth_AZ_of: "l < k \<Longrightarrow> js_nth (AZ_of N k) (int l) = Mat (mat_map sigPrime (mat_val (Z N ! l)))"
  by (simp add: js_nth_def AZ_of_def)

lemma backProp_gradients_returns:
  assumes wf: "wf_net N" and Y: "is_mat (last (structure N)) 1 Y"
    and lenX: "length X = length (structure N)"
    and lenCW: "length CW = length (structure N) - 1"
    and lenCB: "length CB = length (structure N) - 1"
  shows "\<exists>s' g'. backProp_gradients N Y CW CB (AZ_of N (length (structure N))) X g = Inr (s', g')
           \<and> grad_inv N Y 0 s'"
proof -
  let ?L = "length (structure N)"
  let ?AZ = "AZ_of N ?L"
  note lens = wf_net_lengths [OF wf] and lst = wf_net_last [OF wf]
  let ?top = "\<lambda>l (X::jsval list) (CW::jsval list) (CB::jsval list).
          js_bind (obj (js_nth (activations N) (int l))) (\<lambda>a.
          js_bind (subtract a Y) (\<lambda>xl.
          js_bind (obj xl) (\<lambda>xl.
          js_bind (scalarMult xl 2) (\<lambda>xl.
          js_bind (obj (js_nth ?AZ (int l))) (\<lambda>az.
          js_bind (hadamard xl az) (\<lambda>xl.
          js_return (assign X l xl, CW, CB)))))))"
  let ?mid = "\<lambda>l (X::jsval list) (CW::jsval list) (CB::jsval list).
          js_bind (Matrix 1 1 (Some 1)) (\<lambda>xl.
          js_bind (obj (js_nth (weights N) (int l))) (\<lambda>w.
          js_bind (transpose_m (clone xl w)) (\<lambda>xl.
          js_bind (obj (js_nth X (int l + 1))) (\<lambda>xl1.
          js_bind (mult xl xl1) (\<lambda>xl.
          js_bind (obj xl) (\<lambda>xl.
          js_bind (obj (js_nth ?AZ (int l))) (\<lambda>az.
          js_bind (hadamard xl az) (\<lambda>xl.
          let X = assign X l xl in
          js_bind (Matrix 1 1 (Some 1)) (\<lambda>aTranspose.
          js_bind (obj (js_nth (activations N) (int l))) (\<lambda>a.
          js_bind (transpose_m (clone aTranspose a)) (\<lambda>aTranspose.
          js_bind (obj (js_nth X (int l + 1))) (\<lambda>xl1.
          js_bind (mult xl1 aTranspose) (\<lambda>cw.
          let CW = assign CW l cw in
          js_bind (Matrix 1 1 (Some 1)) (\<lambda>bTranspose.
          js_bind (obj (js_nth (biases N) (int l))) (\<lambda>b.
          let bTranspose = clone bTranspose b in
          js_bind (obj (js_nth X (int l + 1))) (\<lambda>xl1.
          js_bind (hadamard xl1 bTranspose) (\<lambda>cb.
          js_return (X, CW, assign CB l cb))))))))))))))))))"
  let ?body = "\<lambda>l (X, CW, CB). if l = ?L - 1 then ?top l X CW CB else ?mid l X CW CB"
  have top: "\<exists>s' g'. ?top k X CW CB g = Inr (s', g') \<and> grad_inv N Y k s'"
    if k: "k = ?L - 1" and inv: "grad_inv N Y (Suc k) (X, CW, CB)" for k X CW CB g
  proof -
    have kL: "k < ?L" using k lens by simp
    have nS: "\<not> Suc k < ?L" using k by simp
    note a = has_shapeD [OF wf_net_layer(1) [OF wf kL]]
      and z = has_shapeD [OF wf_net_layer(2) [OF wf kL]]
    have n: "structure N ! k = last (structure N)"
      using k lst(4) by (simp add: last_conv_nth)
    have pos: "0 < structure N ! k" by (rule wf_net_layer(3) [OF wf kL])
    have ea: "js_nth (activations N) (int k) = Mat (mat_val (activations N ! k))"
      using js_nth_nat [of k "activations N"] kL lens a(1) by simp
    have Yk: "is_mat (structure N ! k) 1 Y" using Y n by simp
    have m1: "is_mat (structure N ! k) 1 (mat_sub (mat_val (activations N ! k)) Y)"
      by (rule is_mat_mat_sub [OF a(2) pos])
    have m2: "is_mat (structure N ! k) 1 (mat_scale 2 (mat_sub (mat_val (activations N ! k)) Y))"
      by (rule is_mat_mat_scale [OF m1 pos])
    have m3: "is_mat (structure N ! k) 1 (mat_map sigPrime (mat_val (Z N ! k)))"
      by (rule is_mat_mat_map [OF z(2) pos])
    have lx: "k < length X" using inv kL by (simp add: grad_inv_def)
    have "?top k X CW CB g = Inr ((X[k := Mat (err_signal N Y k)], CW, CB),
            rdrop (structure N ! k * 1) (rdrop (structure N ! k * 1) g))"
      using lx
      by (simp add: ea js_bind_apply subtract_mat [OF a(2) Yk pos] scalarMult_mat [OF m1 pos]
          js_nth_AZ_of [OF kL] hadamard_mat [OF m2 m3 pos] js_return_apply
          err_signal.simps [of N Y k] nS del: rdrop_rdrop)
    moreover have only: "l = k" if "k \<le> l" "l < ?L" for l
      using that nS by simp
    have "grad_inv N Y k (X[k := Mat (err_signal N Y k)], CW, CB)"
      using inv kL nS by (auto simp: grad_inv_def nth_list_update Suc_le_eq dest: only)
    ultimately show ?thesis by blast
  qed
  have mid: "\<exists>s' g'. ?mid k X CW CB g = Inr (s', g') \<and> grad_inv N Y k s'"
    if k: "Suc k < ?L" and inv: "grad_inv N Y (Suc k) (X, CW, CB)" for k X CW CB g
  proof -
    have kL: "k < ?L" using k by simp
    note W = has_shapeD [OF wf_net_param(1) [OF wf k]]
      and b = has_shapeD [OF wf_net_param(2) [OF wf k]]
      and a = has_shapeD [OF wf_net_layer(1) [OF wf kL]]
      and z = has_shapeD [OF wf_net_layer(2) [OF wf kL]]
    note pos = wf_net_layer(3) [OF wf kL] and pos1 = wf_net_layer(3) [OF wf k]
    let ?x1 = "err_signal N Y (Suc k)"
    have x1: "is_mat (structure N ! Suc k) 1 ?x1" by (rule err_signal_mat [OF wf Y k])
    have lx: "k < length X" "Suc k < length X" "k < length CW" "k < length CB"
      using inv k lens by (simp_all add: grad_inv_def)
    have eX: "js_nth X (int k + 1) = Mat ?x1" "js_nth (X[k := v]) (int k + 1) = Mat ?x1" for v
      using inv k lx js_nth_succ [of k X] js_nth_succ [of k "X[k := v]"] by (simp_all add: grad_inv_def)
    have eW: "js_nth (weights N) (int k) = Mat (mat_val (weights N ! k))"
      using js_nth_nat [of k "weights N"] k lens W(1) by simp
    have ea: "js_nth (activations N) (int k) = Mat (mat_val (activations N ! k))"
      using js_nth_nat [of k "activations N"] k lens a(1) by simp
    have eb: "js_nth (biases N) (int k) = Mat (mat_val (biases N ! k))"
      using js_nth_nat [of k "biases N"] k lens b(1) by simp
    have wT: "is_mat (structure N ! k) (structure N ! Suc k) (mat_T (mat_val (weights N ! k)))"
      by (rule is_mat_mat_T [OF W(2) pos1])
    have m1: "is_mat (structure N ! k) 1 (mat_mul (mat_T (mat_val (weights N ! k))) ?x1)"
      by (rule is_mat_mat_mul [OF wT x1 pos1])
    have m3: "is_mat (structure N ! k) 1 (mat_map sigPrime (mat_val (Z N ! k)))"
      by (rule is_mat_mat_map [OF z(2) pos])
    have aT: "is_mat 1 (structure N ! k) (mat_T (mat_val (activations N ! k)))"
      by (rule is_mat_mat_T [OF a(2) pos])
    have one: "0 < (1::nat)" by simp
    have "\<exists>g'. ?mid k X CW CB g = Inr ((X[k := Mat (err_signal N Y k)],
            CW[k := Mat (grad_W N Y k)], CB[k := Mat (grad_b N Y k)]), g')"
      using lx
      by (simp add: Matrix_Some eW ea eb eX js_bind_apply js_return_apply
          transpose_m_mat [OF W(2) pos1] mult_mat [OF wT x1 pos pos1]
          js_nth_AZ_of [OF kL] hadamard_mat [OF m1 m3 pos]
          transpose_m_mat [OF a(2) pos] mult_mat [OF x1 aT pos1 one]
          hadamard_mat [OF x1 b(2) pos1] err_signal.simps [of N Y k] k grad_W_def grad_b_def)
    moreover have "grad_inv N Y k (X[k := Mat (err_signal N Y k)],
            CW[k := Mat (grad_W N Y k)], CB[k := Mat (grad_b N Y k)])"
      using inv k by (auto simp: grad_inv_def nth_list_update Suc_le_eq)
    ultimately show ?thesis by blast
  qed
  have step: "\<exists>s' g'. ?body k s g = Inr (s', g') \<and> grad_inv N Y k s'"
    if "k < ?L" "grad_inv N Y (Suc k) s" for k s g
  proof -
    obtain X CW CB where s: "s = (X, CW, CB)" by (cases s) auto
    show ?thesis
    proof (cases "k = ?L - 1")
      case True
      then show ?thesis using top [OF True, of X CW CB g] that s by simp
    next
      case False
      then have "Suc k < ?L" using that by simp
      then show ?thesis using mid [of k X CW CB g] that s False by simp
    qed
  qed
  have start: "grad_inv N Y ?L (X, CW, CB)"
    using lenX lenCW lenCB by (auto simp: grad_inv_def)
  have "\<exists>s' g'. for_loop (rev [0..<?L]) ?body (X, CW, CB) g = Inr (s', g') \<and> grad_inv N Y 0 s'"
    by (rule for_loop_down_inv [where I = "grad_inv N Y", OF start]) (rule step)
  then show ?thesis by (simp add: backProp_gradients_def Let_def)
qed

lemma tab_cong: "(\<And>i j. i < r \<Longrightarrow> j < c \<Longrightarrow> f i j = h i j) \<Longrightarrow> tab r c f = tab r c h"
  by (simp add: tab_def)

lemma had_scale:
  assumes "is_mat r c P" "0 < r"
  shows "mat_had (mat_scale k P) G = mat_scale k (mat_had P G)"
proof -
  have 1: "nrows (mat_scale k P) = r" "ncols (mat_scale k P) = c"
    using is_mat_mat_scale [OF assms, of k] assms(2) by (simp_all add: nrows_mat ncols_mat)
  have 2: "nrows (mat_had P G) = r" "ncols (mat_had P G) = c"
    using is_mat_mat_had [OF assms, of G] assms(2) by (simp_all add: nrows_mat ncols_mat)
  have 3: "nrows P = r" "ncols P = c" using assms by (simp_all add: nrows_mat ncols_mat)
  show ?thesis
    unfolding mat_had_def [of "mat_scale k P"] mat_scale_def [of k "mat_had P G"] 1 2
    by (rule tab_cong) (simp add: mat_scale_def mat_had_def 3)
qed

lemma new_weights_facts:
  assumes "k < length (weights N)"
  shows "length (new_weights N CW k) = length (weights N)"
    "new_weights N CW k ! k = weights N ! k"
    "(new_weights N CW k)[k := Mat (step_param (\<alpha> N) (mat_val (weights N ! k)) (mat_val (CW ! k)))]
       = new_weights N CW (Suc k)"
  using assms upd_app_drop [of k "weights N"
      "map (\<lambda>l. Mat (step_param (\<alpha> N) (mat_val (weights N ! l)) (mat_val (CW ! l)))) [0..<k]"]
  by (simp_all add: new_weights_def nth_append)

lemma new_biases_facts:
  assumes "k < length (biases N)"
  shows "length (new_biases N CB k) = length (biases N)"
    "new_biases N CB k ! k = biases N ! k"
    "(new_biases N CB k)[k := Mat (step_param (\<alpha> N) (mat_val (biases N ! k)) (mat_val (CB ! k)))]
       = new_biases N CB (Suc k)"
  using assms upd_app_drop [of k "biases N"
      "map (\<lambda>l. Mat (step_param (\<alpha> N) (mat_val (biases N ! l)) (mat_val (CB ! l)))) [0..<k]"]
  by (simp_all add: new_biases_def nth_append)

lemma backProp_update_returns:
  assumes wf: "wf_net N"
    and lenCW: "length CW = length (structure N) - 1"
    and lenCB: "length CB = length (structure N) - 1"
    and shapes: "\<And>l. Suc l < length (structure N) \<Longrightarrow>
        has_shape (structure N ! Suc l) (structure N ! l) (CW ! l) \<and>
        has_shape (structure N ! Suc l) 1 (CB ! l)"
  shows "\<exists>g'. backProp_update N CW CB g =
           Inr (N\<lparr>weights := new_weights N CW (length (structure N) - 1),
                  biases := new_biases N CB (length (structure N) - 1)\<rparr>, g')"
proof -
  let ?L = "length (structure N)"
  note lens = wf_net_lengths [OF wf]
  define U where "U k s \<longleftrightarrow> s = N\<lparr>weights := new_weights N CW k, biases := new_biases N CB k\<rparr>" for k s
  let ?body = "(\<lambda>l this.
        js_bind (Matrix 1 1 (Some 1)) (\<lambda>scaledW.
        js_bind (obj (js_nth (weights this) (int l))) (\<lambda>w.
        js_bind (scalarMult (clone scaledW w) (\<alpha> this)) (\<lambda>scaledW.
        js_bind (obj (js_nth CW (int l))) (\<lambda>cw.
        js_bind (hadamard scaledW cw) (\<lambda>scaledW.
        js_bind (obj (js_nth (weights this) (int l))) (\<lambda>w.
        js_bind (obj scaledW) (\<lambda>scaledW.
        js_bind (subtract w scaledW) (\<lambda>w'.
        let this = this\<lparr>weights := assign (weights this) l w'\<rparr> in
        js_bind (Matrix 1 1 (Some 1)) (\<lambda>scaledB.
        js_bind (obj (js_nth (biases this) (int l))) (\<lambda>b.
        js_bind (scalarMult (clone scaledB b) (\<alpha> this)) (\<lambda>scaledB.
        js_bind (obj (js_nth (biases this) (int l))) (\<lambda>b.
        js_bind (obj (js_nth CB (int l))) (\<lambda>cb.
        js_bind (hadamard scaledB cb) (\<lambda>sb.
        js_bind (obj sb) (\<lambda>sb.
        js_bind (subtract b sb) (\<lambda>b'.
        js_return (this\<lparr>biases := assign (biases this) l b'\<rparr>))))))))))))))))))"
  have step: "\<exists>s' g'. ?body k s g = Inr (s', g') \<and> U (Suc k) s'"
    if k0: "0 \<le> k" and k: "k < ?L - 1" and Uk: "U k s" for k s g
  proof -
    have kS: "Suc k < ?L" and kL: "k < ?L" using k by simp_all
    note W = has_shapeD [OF wf_net_param(1) [OF wf kS]]
      and b = has_shapeD [OF wf_net_param(2) [OF wf kS]]
      and cw = has_shapeD [OF conjunct1 [OF shapes [OF kS]]]
      and cb = has_shapeD [OF conjunct2 [OF shapes [OF kS]]]
    note pos1 = wf_net_layer(3) [OF wf kS]
    have kw: "k < length (weights N)" "k < length (biases N)" using k lens by simp_all
    note nw = new_weights_facts [OF kw(1), of CW] and nb = new_biases_facts [OF kw(2), of CB]
    let ?W = "mat_val (weights N ! k)" and ?b = "mat_val (biases N ! k)"
    let ?cw = "mat_val (CW ! k)" and ?cb = "mat_val (CB ! k)"
    have eW: "js_nth (new_weights N CW k) (int k) = Mat ?W"
      using js_nth_nat [of k "new_weights N CW k"] nw kw W(1) by simp
    have eb: "js_nth (new_biases N CB k) (int k) = Mat ?b"
      using js_nth_nat [of k "new_biases N CB k"] nb kw b(1) by simp
    have eCW: "js_nth CW (int k) = Mat ?cw"
      using js_nth_nat [of k CW] lenCW k cw(1) by simp
    have eCB: "js_nth CB (int k) = Mat ?cb"
      using js_nth_nat [of k CB] lenCB k cb(1) by simp
    have sW: "is_mat (structure N ! Suc k) (structure N ! k) (mat_scale (\<alpha> N) ?W)"
      by (rule is_mat_mat_scale [OF W(2) pos1])
    have hW: "is_mat (structure N ! Suc k) (structure N ! k) (mat_had (mat_scale (\<alpha> N) ?W) ?cw)"
      by (rule is_mat_mat_had [OF sW pos1])
    have sb: "is_mat (structure N ! Suc k) 1 (mat_scale (\<alpha> N) ?b)"
      by (rule is_mat_mat_scale [OF b(2) pos1])
    have hb: "is_mat (structure N ! Suc k) 1 (mat_had (mat_scale (\<alpha> N) ?b) ?cb)"
      by (rule is_mat_mat_had [OF sb pos1])
    have hW': "is_mat (structure N ! Suc k) (structure N ! k) (mat_scale (\<alpha> N) (mat_had ?W ?cw))"
      using hW by (simp add: had_scale [OF W(2) pos1])
    have hb': "is_mat (structure N ! Suc k) 1 (mat_scale (\<alpha> N) (mat_had ?b ?cb))"
      using hb by (simp add: had_scale [OF b(2) pos1])
    have lw: "k < length (new_weights N CW k)" "k < length (new_biases N CB k)"
      using nw nb kw by simp_all
    have "\<exists>g'. ?body k s g = Inr (N\<lparr>weights := new_weights N CW (Suc k),
            biases := new_biases N CB (Suc k)\<rparr>, g')"
      using Uk lw
      by (simp add: U_def Matrix_Some eW eb eCW eCB js_bind_apply js_return_apply
          scalarMult_mat [OF W(2) pos1] hadamard_mat [OF sW cw(2) pos1]
          subtract_mat [OF W(2) hW' pos1]
          scalarMult_mat [OF b(2) pos1] hadamard_mat [OF sb cb(2) pos1]
          subtract_mat [OF b(2) hb' pos1]
          had_scale [OF W(2) pos1] had_scale [OF b(2) pos1]
          step_param_def [symmetric] nw(3) nb(3))
    then show ?thesis by (auto simp: U_def)
  qed
  have U0: "U 0 N" by (simp add: U_def new_weights_def new_biases_def)
  have "\<exists>s' g'. for_loop [0..<?L - 1] ?body N g = Inr (s', g') \<and> U (?L - 1) s'"
    by (rule for_loop_upt_inv [where I = U, OF U0]) (use step in simp_all)
  then show ?thesis by (simp add: backProp_update_def Let_def U_def)
qed

lemma grad_shapes:
  assumes wf: "wf_net N" and Y: "is_mat (last (structure N)) 1 Y" and l: "Suc l < length (structure N)"
  shows "is_mat (structure N ! Suc l) (structure N ! l) (grad_W N Y l)"
    "is_mat (structure N ! Suc l) 1 (grad_b N Y l)"
proof -
  have lL: "l < length (structure N)" using l by simp
  note a = has_shapeD [OF wf_net_layer(1) [OF wf lL]]
  note x1 = err_signal_mat [OF wf Y l]
  have aT: "is_mat 1 (structure N ! l) (mat_T (mat_val (activations N ! l)))"
    by (rule is_mat_mat_T [OF a(2) wf_net_layer(3) [OF wf lL]])
  show "is_mat (structure N ! Suc l) (structure N ! l) (grad_W N Y l)"
    unfolding grad_W_def by (rule is_mat_mat_mul [OF x1 aT]) simp
  show "is_mat (structure N ! Suc l) 1 (grad_b N Y l)"
    unfolding grad_b_def by (rule is_mat_mat_had [OF x1 wf_net_layer(3) [OF wf l]])
qed

lemma is_mat_step_param: "is_mat r c P \<Longrightarrow> 0 < r \<Longrightarrow> is_mat r c (step_param a P G)"
  by (simp add: step_param_def is_mat_mat_sub)

lemma wf_net_updated:
  assumes wf: "wf_net N"
  shows "wf_net (updated N Y)"
proof -
  have "has_shape (structure N ! Suc l) (structure N ! l)
          (Mat (step_param (\<alpha> N) (mat_val (weights N ! l)) (grad_W N Y l))) \<and>
        has_shape (structure N ! Suc l) 1
          (Mat (step_param (\<alpha> N) (mat_val (biases N ! l)) (grad_b N Y l)))"
    if "Suc l < length (structure N)" for l
    using has_shapeD(2) [OF wf_net_param(1) [OF wf that]] has_shapeD(2) [OF wf_net_param(2) [OF wf that]]
      wf_net_layer(3) [OF wf that]
    by (simp add: is_mat_step_param)
  then show ?thesis
    using wf by (auto simp: wf_net_def shape_inv_def updated_def)
qed

lemma backward_pass_run:
  assumes wf: "wf_net N" and i: "index < length labels"
    and d: "labels ! index < last (structure N)"
  shows "\<exists>X CW CB. backward_pass labels N index g (target labels N index) X CW CB
                      (updated N (target labels N index)) \<and>
                    grad_inv N (target labels N index) 0 (X, CW, CB)"
proof -
  let ?L = "length (structure N)"
  let ?Y = "target labels N index"
  note lens = wf_net_lengths [OF wf]
  have Y: "is_mat (last (structure N)) 1 ?Y" unfolding target_def by (rule is_mat_one_hot)
  obtain g1 where 1: "backProp_locals labels N index g =
      Inr ((?Y, replicate (?L - 1) (Mat (dCdA N ?Y)), replicate (?L - 1) (Mat (dCdA N ?Y)),
            AZ_of N ?L, replicate ?L JUndefined), g1)"
    using backProp_locals_returns [OF wf i d, of g] by (auto simp: target_def)
  obtain X CW CB g2 where 2: "backProp_gradients N ?Y (replicate (?L - 1) (Mat (dCdA N ?Y)))
        (replicate (?L - 1) (Mat (dCdA N ?Y))) (AZ_of N ?L) (replicate ?L JUndefined) g1
      = Inr ((X, CW, CB), g2)" and inv: "grad_inv N ?Y 0 (X, CW, CB)"
    using backProp_gradients_returns [OF wf Y, of "replicate ?L JUndefined"
        "replicate (?L - 1) (Mat (dCdA N ?Y))" "replicate (?L - 1) (Mat (dCdA N ?Y))" g1]
    by auto
  have len: "length CW = ?L - 1" "length CB = ?L - 1"
    and gr: "\<And>l. Suc l < ?L \<Longrightarrow> CW ! l = Mat (grad_W N ?Y l) \<and> CB ! l = Mat (grad_b N ?Y l)"
    using inv by (simp_all add: grad_inv_def)
  have shapes: "has_shape (structure N ! Suc l) (structure N ! l) (CW ! l) \<and>
        has_shape (structure N ! Suc l) 1 (CB ! l)" if "Suc l < ?L" for l
    using gr [OF that] grad_shapes [OF wf Y that] by simp
  obtain g3 where 3: "backProp_update N CW CB g2 =
      Inr (N\<lparr>weights := new_weights N CW (?L - 1), biases := new_biases N CB (?L - 1)\<rparr>, g3)"
    using backProp_update_returns [OF wf len shapes, of g2] by auto
  have "new_weights N CW (?L - 1)
          = map (\<lambda>l. Mat (step_param (\<alpha> N) (mat_val (weights N ! l)) (grad_W N ?Y l))) [0..<?L - 1]"
    using gr lens by (simp add: new_weights_def)
  moreover have "new_biases N CB (?L - 1)
          = map (\<lambda>l. Mat (step_param (\<alpha> N) (mat_val (biases N ! l)) (grad_b N ?Y l))) [0..<?L - 1]"
    using gr lens by (simp add: new_biases_def)
  ultimately have 4: "backProp_update N CW CB g2 = Inr (updated N ?Y, g3)"
    using 3 by (simp add: updated_def)
  have "backProp labels N index g = Inr (updated N ?Y, g3)"
    using 1 2 4 by (simp add: backProp_def js_bind_apply)
  then have "backward_pass labels N index g ?Y X CW CB (updated N ?Y)"
    unfolding backward_pass_def using 1 2 4 by blast
  then show ?thesis using inv by blast
qed

lemma backProp_returns:
  assumes wf: "wf_net N" and i: "index < length labels"
    and d: "labels ! index < last (structure N)"
  shows "\<exists>g'. backProp labels N index g = Inr (updated N (target labels N index), g')"
  using backward_pass_run [OF assms, of g] unfolding backward_pass_def by blast

subsection \<open>Construction and training\<close>

lemma NNetwork_returns:
  assumes pos: "\<forall>n\<in>set sizes. 0 < n"
  shows "\<exists>N g'. NNetwork sizes g = Inr (N, g') \<and> built sizes (length sizes) N"
proof -
  let ?L = "length sizes"
  let ?body = "(\<lambda>l this.
       js_bind
         (if l < length sizes - 1 then
            js_bind (Matrix (sizes ! (l + 1)) (sizes ! l) None) (\<lambda>m.
            js_return (this\<lparr>weights := weights this @ [Mat m]\<rparr>))
          else js_return this) (\<lambda>this.
       js_bind (Matrix (sizes ! l) 1 (Some 0)) (\<lambda>a.
       js_bind (Matrix (sizes ! l) 1 (Some 0)) (\<lambda>z.
       let this = this\<lparr>activations := activations this @ [Mat a], Z := Z this @ [Mat z]\<rparr> in
       if l > 0 then
         js_bind (Matrix (sizes ! l) 1 None) (\<lambda>b.
         js_return (this\<lparr>biases := biases this @ [Mat b]\<rparr>))
       else js_return this))))"
  have step: "\<exists>s' g'. ?body k s g = Inr (s', g') \<and> built sizes (Suc k) s'"
    if k0: "0 \<le> k" and k: "k < ?L" and inv: "built sizes k s" for k s g
  proof -
    have pk: "0 < sizes ! k" using pos k by simp
    have pS: "0 < sizes ! Suc k" if "Suc k < ?L" using pos that by simp
    show ?thesis
    proof (cases "Suc k < ?L")
      case True
      note pS' = pS [OF True]
      show ?thesis
      proof (cases "0 < k")
        case True
        show ?thesis
          using inv k \<open>Suc k < ?L\<close> True
          by (simp add: js_bind_apply Matrix_None [OF pS'] Matrix_None [OF pk] Matrix_Some
              js_return_apply built_def nth_append less_Suc_eq min_def)
             (auto simp: less_Suc_eq)
      next
        case False
        then have k0: "k = 0" by simp
        have p1: "0 < sizes ! Suc 0" using pS' k0 by simp
        have l1: "Suc 0 \<le> length sizes - Suc 0" using \<open>Suc k < ?L\<close> k0 by simp
        have l2: "Suc 0 < length sizes" using \<open>Suc k < ?L\<close> k0 by simp
        show ?thesis
          using inv l1 l2 unfolding k0
          by (simp add: js_bind_apply Matrix_None [OF p1] Matrix_Some
              js_return_apply built_def)
      qed
    next
      case False
      show ?thesis
      proof (cases "0 < k")
        case True
        show ?thesis
          using inv k False True
          by (simp add: js_bind_apply Matrix_None [OF pk] Matrix_Some
              js_return_apply built_def nth_append less_Suc_eq min_def)
             (auto simp: less_Suc_eq)
      next
        case False
        then have k0: "k = 0" by simp
        have l1: "\<not> Suc 0 \<le> length sizes - Suc 0" using \<open>\<not> Suc k < ?L\<close> k0 by simp
        have l2: "\<not> Suc 0 < length sizes" using \<open>\<not> Suc k < ?L\<close> k0 by simp
        show ?thesis
          using inv l1 l2 k unfolding k0
          by (simp add: js_bind_apply Matrix_Some js_return_apply built_def)
      qed
    qed
  qed
  let ?N0 = "\<lparr>weights = [], activations = [], Z = [], biases = [],
      layerCount = length sizes, structure = sizes, \<alpha> = 0.01\<rparr>"
  have start: "built sizes 0 ?N0" by (simp add: built_def)
  have "\<exists>s' g'. for_loop [0..<?L] ?body ?N0 g = Inr (s', g') \<and> built sizes ?L s'"
    by (rule for_loop_upt_inv [where I = "built sizes", OF start]) (use step in simp_all)
  then show ?thesis by (simp add: NNetwork_def)
qed

lemma built_wf:
  assumes "built sizes (length sizes) N" "\<forall>n\<in>set sizes. 0 < n" "sizes \<noteq> []"
  shows "wf_net N"
proof -
  have "min (length sizes) (length sizes - 1) = length sizes - 1" by simp
  then show ?thesis
    using assms by (auto simp: built_def wf_net_def shape_inv_def less_diff_conv)
qed

lemma train_returns:
  assumes wf: "wf_net N"
    and img: "0 < length imgData" "structure N ! 0 \<le> length (imgData ! 0)"
    and lab: "0 < length labels" "labels ! 0 < last (structure N)"
  shows "\<exists>N' g'. train imgData labels N count g = Inr (N', g') \<and> wf_net N' \<and> structure N' = structure N"
proof -
  define T where "T k s \<longleftrightarrow> wf_net s \<and> structure s = structure N" for k :: nat and s
  let ?body = "(\<lambda>index this.
       js_bind (forwardProp imgData this 0) (\<lambda>this.
       backProp labels this 0))"
  have step: "\<exists>s' g'. ?body k s g = Inr (s', g') \<and> T (Suc k) s'"
    if "0 \<le> k" "k < count" "T k s" for k s g
  proof -
    from that have wfs: "wf_net s" and st: "structure s = structure N" by (simp_all add: T_def)
    obtain N1 g1 where 1: "forwardProp imgData s 0 g = Inr (N1, g1)" "wf_net N1"
        "structure N1 = structure s"
      using forwardProp_returns [OF wfs img(1), of g] img(2) st by auto
    obtain g2 where 2: "backProp labels N1 0 g1 = Inr (updated N1 (target labels N1 0), g2)"
      using backProp_returns [OF 1(2) lab(1), of g1] lab(2) 1(3) st by auto
    have "T (Suc k) (updated N1 (target labels N1 0))"
      using wf_net_updated [OF 1(2)] 1(3) st by (simp add: T_def updated_def)
    then show ?thesis using 1 2 by (simp add: js_bind_apply)
  qed
  have start: "T 0 N" using wf by (simp add: T_def)
  have "\<exists>s' g'. for_loop [0..<count] ?body N g = Inr (s', g') \<and> T count s'"
    by (rule for_loop_upt_inv [where I = T, OF start]) (use step in simp_all)
  then show ?thesis by (simp add: train_def T_def)
qed

lemma sigPrime_eq: "sigPrime = (\<lambda>x. exp (- x) / (1 + exp (- x))\<^sup>2)"
  by (simp add: sigPrime_def Let_def fun_eq_iff power2_eq_square add.commute)

lemma sigmoid_eq: "sigmoid = (\<lambda>x. 1 / (1 + exp (- x)))"
  by (simp add: sigmoid_def fun_eq_iff)

lemma wf_sample_net: "wf_net sample_net"
  by (simp add: wf_net_def shape_inv_def sample_net_def is_mat_def atLeastLessThanSuc)


text \<open>
  What the constructor puts into the parameters: every cell of every weight matrix and
  of every bias vector is \<^verbatim>\<open>Math.random() * 10 - 5\<close>, hence in \<open>[-5, 5)\<close> when
  \<^verbatim>\<open>Math.random()\<close> is in \<open>[0, 1)\<close>.
\<close>

lemma drawn_tab: "drawn g (Mat (tab r c (\<lambda>i j. rdrop n g (i * c + j) * 10 - 5)))"
  by (auto simp: drawn_def tab_def rdrop_def)

lemma NNetwork_parameters_drawn:
  assumes pos: "\<forall>n\<in>set sizes. 0 < n"
  shows "\<exists>N g'. NNetwork sizes g = Inr (N, g') \<and>
           (\<forall>v\<in>set (weights N) \<union> set (biases N). drawn g v)"
proof -
  let ?L = "length sizes"
  define I where "I k s g1 \<longleftrightarrow> (\<exists>n. g1 = rdrop n g) \<and>
     (\<forall>v\<in>set (weights s) \<union> set (biases s). drawn g v)" for k :: nat and s :: network and g1
  let ?body = "(\<lambda>l this.
       js_bind
         (if l < length sizes - 1 then
            js_bind (Matrix (sizes ! (l + 1)) (sizes ! l) None) (\<lambda>m.
            js_return (this\<lparr>weights := weights this @ [Mat m]\<rparr>))
          else js_return this) (\<lambda>this.
       js_bind (Matrix (sizes ! l) 1 (Some 0)) (\<lambda>a.
       js_bind (Matrix (sizes ! l) 1 (Some 0)) (\<lambda>z.
       let this = this\<lparr>activations := activations this @ [Mat a], Z := Z this @ [Mat z]\<rparr> in
       if l > 0 then
         js_bind (Matrix (sizes ! l) 1 None) (\<lambda>b.
         js_return (this\<lparr>biases := biases this @ [Mat b]\<rparr>))
       else js_return this))))"
  have step: "\<exists>s' g'. ?body k s g1 = Inr (s', g') \<and> I (Suc k) s' g'"
    if k0: "0 \<le> k" and k: "k < ?L" and inv: "I k s g1" for k s g1
  proof -
    obtain n where g1: "g1 = rdrop n g"
      and dr: "\<forall>v\<in>set (weights s) \<union> set (biases s). drawn g v"
      using inv by (auto simp: I_def)
    have pk: "0 < sizes ! k" using pos k by simp
    have more: "\<exists>n'. rdrop m g = rdrop n' g" for m
      by blast
    show ?thesis
    proof (cases "Suc k < ?L")
      case True
      then have pS: "0 < sizes ! Suc k" using pos by simp
      have c: "k < ?L - 1" using True by simp
      show ?thesis
      proof (cases "0 < k")
        case True
        show ?thesis
          using dr c True unfolding g1
          by (simp add: js_bind_apply Matrix_None [OF pS] Matrix_None [OF pk] Matrix_Some
              js_return_apply I_def more drawn_tab drawn_tab [of g _ 1, simplified])
      next
        case False
        then have k0: "k = 0" by simp
        have p1: "0 < sizes ! Suc 0" using pS k0 by simp
        have c1: "0 < length sizes - Suc 0" using c k0 by simp
        show ?thesis
          using dr c1 unfolding g1 k0
          by (simp add: js_bind_apply Matrix_None [OF p1] Matrix_Some
              js_return_apply I_def more drawn_tab)
      qed
    next
      case False
      then have c: "\<not> k < ?L - 1" by simp
      show ?thesis
      proof (cases "0 < k")
        case True
        show ?thesis
          using dr c True unfolding g1
          by (simp add: js_bind_apply Matrix_None [OF pk] Matrix_Some
              js_return_apply I_def more drawn_tab [of g _ 1, simplified])
      next
        case False
        then have k0: "k = 0" by simp
        have c1: "\<not> 0 < length sizes - Suc 0" using c k0 by simp
        show ?thesis
          using dr c1 unfolding g1 k0
          by (simp add: js_bind_apply Matrix_Some js_return_apply I_def more)
      qed
    qed
  qed
  let ?N0 = "\<lparr>weights = [], activations = [], Z = [], biases = [],
      layerCount = length sizes, structure = sizes, \<alpha> = 0.01\<rparr>"
  have start: "I 0 ?N0 g" unfolding I_def using rdrop_0 [of g] by (auto intro: exI [of _ 0])
  have "\<exists>s' g'. for_loop [0..<?L] ?body ?N0 g = Inr (s', g') \<and> I ?L s' g'"
    by (rule for_loop_upt_inv_rng [where I = I, OF start]) (use step in simp_all)
  then show ?thesis by (auto simp: NNetwork_def I_def)
qed

lemma drawn_range:
  assumes "drawn g v" and "\<forall>i. 0 \<le> g i \<and> g i < 1"
  shows "\<forall>row\<in>set (mat_val v). \<forall>x\<in>set row. - 5 \<le> x \<and> x < 5"
proof (intro ballI)
  fix row x assume "row \<in> set (mat_val v)" "x \<in> set row"
  then obtain k where "x = g k * 10 - 5" using assms(1) by (auto simp: drawn_def)
  then show "- 5 \<le> x \<and> x < 5" using assms(2) [rule_format, of k] by simp
qed

subsection \<open>Remarks\<close>

text \<open>
  Why the theorems below ask for a first row: without one, \<^verbatim>\<open>size()\<close> reads
  \<^verbatim>\<open>this.data[0].length\<close> of \<^verbatim>\<open>undefined\<close>, and every operation that starts with it
  throws; so does the constructor with no rows and no \<^verbatim>\<open>val\<close>.
\<close>

lemma no_rows_throws:
  "size_m [] = js_throw TypeError"
  "add [] B = js_throw TypeError"
  "subtract [] B = js_throw TypeError"
  "hadamard [] B = js_throw TypeError"
  "mult [] B = js_throw TypeError"
  "Matrix 0 c None = js_throw TypeError"
  by (simp_all add: size_m_def add_def subtract_def hadamard_def mult_def Matrix_def randomise_def)

text \<open>
  The two nonlinearities in exact arithmetic. These are facts about real numbers only:
  on IEEE doubles \<open>1 + e\<^sup>-\<^sup>x\<close> is rounded, and the strict bounds are not a consequence.
\<close>

lemma sigmoid_exact_arithmetic:
  "0 < sigmoid x" "sigmoid x < 1" "sigmoid 0 = 1 / 2"
proof -
  have e: "0 < exp (- x)" by simp
  then show "0 < sigmoid x" by (simp add: sigmoid_def add_pos_pos)
  have p: "0 < 1 + exp (- x)" using e by (simp add: add_pos_pos)
  have q: "1 < 1 + exp (- x)" using e by simp
  show "sigmoid x < 1"
    unfolding sigmoid_def by (rule iffD2 [OF divide_less_eq_1_pos [OF p] q])
  show "sigmoid 0 = 1 / 2" by (simp add: sigmoid_def)
qed

lemma sigPrime_sigmoid: "sigPrime x = sigmoid x * (1 - sigmoid x)"
proof -
  have e: "0 < exp (- x)" by simp
  have "1 + exp (- x) \<noteq> 0" using e by linarith
  then show ?thesis
    by (simp add: sigPrime_def sigmoid_def Let_def field_simps)
qed


section \<open>Properties\<close>

text \<open>
  C1. The claim: at construction every entry of \<open>biases[l]\<close> is 0, while every entry of
  \<open>weights[l]\<close> is drawn from \<open>[-5, 5)\<close>. The comment in the constructor says the same
  (\<^verbatim>\<open>Initialise biases to 0\<close>), but the bias vectors are built by
  \<^verbatim>\<open>new Matrix(sizes[l], 1)\<close>, without the third argument, so they are randomised like
  the weights (\<open>NNetwork_parameters_drawn\<close> above). With \<^verbatim>\<open>Math.random()\<close> returning 0.75,
  the network of sizes 1, 1 gets the bias 2.5.
\<close>

theorem NNetwork_biases_random:
  "NNetwork [1, 1] (\<lambda>_. 3 / 4) =
     Inr (\<lparr>weights = [Mat [[5 / 2]]], activations = [Mat [[0]], Mat [[0]]],
           Z = [Mat [[0]], Mat [[0]]], biases = [Mat [[5 / 2]]],
           layerCount = 2, structure = [1, 1], \<alpha> = 0.01\<rparr>, (\<lambda>_. 3 / 4))"
  by (simp add: NNetwork_def upt_rec js_bind_apply Matrix_def randomise_def size_m_def
      js_return_apply random_def set_m_def)

text \<open>
  C2. For matrices \<open>A\<close> (\<open>rA\<close> by \<open>cA\<close>) and \<open>B\<close> (\<open>rB\<close> by \<open>cB\<close>) with at least one row
  each: \<^verbatim>\<open>add\<close>, \<^verbatim>\<open>subtract\<close> and \<^verbatim>\<open>hadamard\<close> return \<^verbatim>\<open>false\<close> if and only if the
  row counts or the column counts differ, and otherwise a matrix of the shape of \<open>A\<close>;
  \<^verbatim>\<open>mult\<close> returns \<^verbatim>\<open>false\<close> if and only if \<open>cA\<close> differs from \<open>rB\<close>, and otherwise an
  \<open>rA\<close> by \<open>cB\<close> matrix. In every case the call returns.
\<close>

theorem binary_operations:
  assumes "is_mat rA cA A" and "0 < rA" and "is_mat rB cB B" and "0 < rB"
  shows "(\<exists>v g'. add A B g = Inr (v, g') \<and>
            (v = JFalse \<longleftrightarrow> rA \<noteq> rB \<or> cA \<noteq> cB) \<and> (v \<noteq> JFalse \<longrightarrow> has_shape rA cA v)) \<and>
         (\<exists>v g'. subtract A B g = Inr (v, g') \<and>
            (v = JFalse \<longleftrightarrow> rA \<noteq> rB \<or> cA \<noteq> cB) \<and> (v \<noteq> JFalse \<longrightarrow> has_shape rA cA v)) \<and>
         (\<exists>v g'. hadamard A B g = Inr (v, g') \<and>
            (v = JFalse \<longleftrightarrow> rA \<noteq> rB \<or> cA \<noteq> cB) \<and> (v \<noteq> JFalse \<longrightarrow> has_shape rA cA v)) \<and>
         (\<exists>v g'. mult A B g = Inr (v, g') \<and>
            (v = JFalse \<longleftrightarrow> cA \<noteq> rB) \<and> (v \<noteq> JFalse \<longrightarrow> has_shape rA cB v))"
proof (intro conjI)
  note A = assms(1) and rA = assms(2) and B = assms(3) and rB = assms(4)
  show "\<exists>v g'. add A B g = Inr (v, g') \<and>
            (v = JFalse \<longleftrightarrow> rA \<noteq> rB \<or> cA \<noteq> cB) \<and> (v \<noteq> JFalse \<longrightarrow> has_shape rA cA v)"
  proof (cases "rA \<noteq> rB \<or> cA \<noteq> cB")
    case True
    then show ?thesis using add_mismatch [OF A B rA rB] by (simp add: js_return_apply)
  next
    case False
    then have "is_mat rA cA B" using B by simp
    then show ?thesis
      using False add_mat [OF A _ rA, of B g] is_mat_mat_add [OF A rA, of B] by simp
  qed
  show "\<exists>v g'. subtract A B g = Inr (v, g') \<and>
            (v = JFalse \<longleftrightarrow> rA \<noteq> rB \<or> cA \<noteq> cB) \<and> (v \<noteq> JFalse \<longrightarrow> has_shape rA cA v)"
  proof (cases "rA \<noteq> rB \<or> cA \<noteq> cB")
    case True
    then show ?thesis using subtract_mismatch [OF A B rA rB] by (simp add: js_return_apply)
  next
    case False
    then have "is_mat rA cA B" using B by simp
    then show ?thesis
      using False subtract_mat [OF A _ rA, of B g] is_mat_mat_sub [OF A rA, of B] by simp
  qed
  show "\<exists>v g'. hadamard A B g = Inr (v, g') \<and>
            (v = JFalse \<longleftrightarrow> rA \<noteq> rB \<or> cA \<noteq> cB) \<and> (v \<noteq> JFalse \<longrightarrow> has_shape rA cA v)"
  proof (cases "rA \<noteq> rB \<or> cA \<noteq> cB")
    case True
    then show ?thesis using hadamard_mismatch [OF A B rA rB] by (simp add: js_return_apply)
  next
    case False
    then have "is_mat rA cA B" using B by simp
    then show ?thesis
      using False hadamard_mat [OF A _ rA, of B g] is_mat_mat_had [OF A rA, of B] by simp
  qed
  show "\<exists>v g'. mult A B g = Inr (v, g') \<and>
            (v = JFalse \<longleftrightarrow> cA \<noteq> rB) \<and> (v \<noteq> JFalse \<longrightarrow> has_shape rA cB v)"
  proof (cases "cA \<noteq> rB")
    case True
    then show ?thesis using mult_mismatch [OF A B rA] by (simp add: js_return_apply)
  next
    case False
    then have B': "is_mat cA cB B" and cA: "0 < cA" using B rB by simp_all
    show ?thesis
      using False mult_mat [OF A B' rA cA, of g] is_mat_mat_mul [OF A B' cA] by simp
  qed
qed

theorem binary_operations_witness:
  "is_mat 2 2 [[1, 2], [3, 4]] \<and> (0::nat) < 2 \<and> is_mat 2 1 [[5], [6]] \<and> (0::nat) < 2 \<and>
   (\<exists>v g'. add [[1, 2], [3, 4]] [[5], [6]] (\<lambda>_. 0) = Inr (v, g') \<and>
            (v = JFalse \<longleftrightarrow> (2::nat) \<noteq> 2 \<or> (2::nat) \<noteq> 1) \<and> (v \<noteq> JFalse \<longrightarrow> has_shape 2 2 v)) \<and>
   (\<exists>v g'. subtract [[1, 2], [3, 4]] [[5], [6]] (\<lambda>_. 0) = Inr (v, g') \<and>
            (v = JFalse \<longleftrightarrow> (2::nat) \<noteq> 2 \<or> (2::nat) \<noteq> 1) \<and> (v \<noteq> JFalse \<longrightarrow> has_shape 2 2 v)) \<and>
   (\<exists>v g'. hadamard [[1, 2], [3, 4]] [[5], [6]] (\<lambda>_. 0) = Inr (v, g') \<and>
            (v = JFalse \<longleftrightarrow> (2::nat) \<noteq> 2 \<or> (2::nat) \<noteq> 1) \<and> (v \<noteq> JFalse \<longrightarrow> has_shape 2 2 v)) \<and>
   (\<exists>v g'. mult [[1, 2], [3, 4]] [[5], [6]] (\<lambda>_. 0) = Inr (v, g') \<and>
            (v = JFalse \<longleftrightarrow> (2::nat) \<noteq> 2) \<and> (v \<noteq> JFalse \<longrightarrow> has_shape 2 1 v))"
proof -
  have h1: "is_mat 2 2 [[1, 2], [3, 4]]" by (simp add: is_mat_def)
  have h2: "(0::nat) < 2" by simp
  have h3: "is_mat 2 1 [[5], [6]]" by (simp add: is_mat_def)
  show ?thesis
    using h1 h2 h3 binary_operations [OF h1 h2 h3 h2, of "\<lambda>_. 0"] by blast
qed

text \<open>
  C3. On a well-formed network and a sample that has a value for every input neuron,
  \<^verbatim>\<open>forwardProp\<close> returns, leaves weights and biases alone, puts the raw sample into
  \<open>activations[0]\<close>, and for every layer \<open>l\<close> from 1 to the last leaves
  \<open>Z[l] = weights[l-1] \<cdot> activations[l-1] + biases[l-1]\<close>, with the activations of the
  same pass, and \<open>activations[l]\<close> the elementwise \<open>1 / (1 + e\<^sup>-\<^sup>x)\<close> of \<open>Z[l]\<close>.
\<close>

theorem forward_pass:
  assumes "wf_net N" and "input < length imgData"
    and "structure N ! 0 \<le> length (imgData ! input)"
  shows "\<exists>N' g'. forwardProp imgData N input g = Inr (N', g') \<and>
           weights N' = weights N \<and> biases N' = biases N \<and>
           activations N' ! 0 = Mat (column (take (structure N ! 0) (imgData ! input))) \<and>
           (\<forall>l. 1 \<le> l \<and> l < length (structure N) \<longrightarrow>
              Z N' ! l =
                Mat (mat_add
                       (mat_mul (mat_val (weights N' ! (l - 1))) (mat_val (activations N' ! (l - 1))))
                       (mat_val (biases N' ! (l - 1)))) \<and>
              activations N' ! l = Mat (mat_map (\<lambda>x. 1 / (1 + exp (- x))) (mat_val (Z N' ! l))))"
proof -
  obtain N' g' where run: "forwardProp imgData N input g = Inr (N', g')"
    and same: "weights N' = weights N" "biases N' = biases N"
    and a0: "activations N' ! 0 = Mat (column (take (structure N ! 0) (imgData ! input)))"
    and fw: "\<And>l. 0 < l \<Longrightarrow> l < length (structure N) \<Longrightarrow> forward_state N' l"
    using forwardProp_returns [OF assms, of g] by blast
  have "Z N' ! l = Mat (pre_activation N' l) \<and>
        activations N' ! l = Mat (mat_map (\<lambda>x. 1 / (1 + exp (- x))) (mat_val (Z N' ! l)))"
    if "1 \<le> l" "l < length (structure N)" for l
    using fw [of l] that by (simp add: forward_state_def sigmoid_eq)
  then show ?thesis
    using run same a0 unfolding pre_activation_def by blast
qed

theorem forward_pass_witness:
  "wf_net sample_net \<and> 0 < length sample_images \<and>
   structure sample_net ! 0 \<le> length (sample_images ! 0) \<and>
   (\<exists>N' g'. forwardProp sample_images sample_net 0 (\<lambda>_. 0) = Inr (N', g') \<and>
           weights N' = weights sample_net \<and> biases N' = biases sample_net \<and>
           activations N' ! 0 = Mat (column (take (structure sample_net ! 0) (sample_images ! 0))) \<and>
           (\<forall>l. 1 \<le> l \<and> l < length (structure sample_net) \<longrightarrow>
              Z N' ! l =
                Mat (mat_add
                       (mat_mul (mat_val (weights N' ! (l - 1))) (mat_val (activations N' ! (l - 1))))
                       (mat_val (biases N' ! (l - 1)))) \<and>
              activations N' ! l = Mat (mat_map (\<lambda>x. 1 / (1 + exp (- x))) (mat_val (Z N' ! l)))))"
proof -
  have h1: "wf_net sample_net" by (rule wf_sample_net)
  have h2: "0 < length sample_images" by (simp add: sample_images_def)
  have h3: "structure sample_net ! 0 \<le> length (sample_images ! 0)"
    by (simp add: sample_net_def sample_images_def)
  show ?thesis
    using h1 h2 h3 forward_pass [OF h1 h2 h3, of "\<lambda>_. 0"] by blast
qed

text \<open>
  C4. On a well-formed network and a label below the width of the output layer,
  \<^verbatim>\<open>backProp\<close> runs through, with the one-hot target \<open>Y\<close>, and its error signals are: at
  the last layer \<open>X = 2 (activations - Y) \<odot> \<sigma>'(Z)\<close>, and at every layer \<open>l\<close> from the one
  below the last down to 1, \<open>X[l] = (weights[l]\<^sup>T \<cdot> X[l+1]) \<odot> \<sigma>'(Z[l])\<close>, where
  \<open>\<sigma>'(x) = e\<^sup>-\<^sup>x / (1 + e\<^sup>-\<^sup>x)\<^sup>2\<close>.
\<close>

theorem error_signals:
  assumes "wf_net N" and "index < length labels" and "labels ! index < last (structure N)"
  shows "\<exists>Y X CW CB N'.
           backward_pass labels N index g Y X CW CB N' \<and>
           Y = one_hot (last (structure N)) (labels ! index) \<and>
           X ! (length (structure N) - 1) =
             Mat (mat_had
                    (mat_scale 2 (mat_sub (mat_val (activations N ! (length (structure N) - 1))) Y))
                    (mat_map (\<lambda>x. exp (- x) / (1 + exp (- x))\<^sup>2)
                       (mat_val (Z N ! (length (structure N) - 1))))) \<and>
           (\<forall>l. 1 \<le> l \<and> l < length (structure N) - 1 \<longrightarrow>
              X ! l =
                Mat (mat_had
                       (mat_mul (mat_T (mat_val (weights N ! l))) (mat_val (X ! (l + 1))))
                       (mat_map (\<lambda>x. exp (- x) / (1 + exp (- x))\<^sup>2) (mat_val (Z N ! l)))))"
proof -
  let ?L = "length (structure N)"
  let ?Y = "target labels N index"
  obtain X CW CB where run: "backward_pass labels N index g ?Y X CW CB (updated N ?Y)"
    and inv: "grad_inv N ?Y 0 (X, CW, CB)"
    using backward_pass_run [OF assms, of g] by blast
  have L: "0 < ?L" by (rule wf_net_lengths(5) [OF assms(1)])
  have X: "X ! l = Mat (err_signal N ?Y l)" if "l < ?L" for l
    using inv that by (simp add: grad_inv_def)
  have top: "X ! (?L - 1) = Mat (mat_had
                    (mat_scale 2 (mat_sub (mat_val (activations N ! (?L - 1))) ?Y))
                    (mat_map sigPrime (mat_val (Z N ! (?L - 1)))))"
  proof -
    have "err_signal N ?Y (?L - 1) = mat_had
                    (mat_scale 2 (mat_sub (mat_val (activations N ! (?L - 1))) ?Y))
                    (mat_map sigPrime (mat_val (Z N ! (?L - 1))))"
      using L by (subst err_signal.simps) simp
    then show ?thesis using X [of "?L - 1"] L by simp
  qed
  have mid: "X ! l = Mat (mat_had
                       (mat_mul (mat_T (mat_val (weights N ! l))) (mat_val (X ! (l + 1))))
                       (mat_map sigPrime (mat_val (Z N ! l))))" if "l < ?L - 1" for l
  proof -
    have l: "Suc l < ?L" "l < ?L" using that by simp_all
    have "err_signal N ?Y l = mat_had
                       (mat_mul (mat_T (mat_val (weights N ! l))) (err_signal N ?Y (Suc l)))
                       (mat_map sigPrime (mat_val (Z N ! l)))"
      using l by (subst err_signal.simps) simp
    then show ?thesis
      using X [of l] X [of "Suc l"] l by simp
  qed
  show ?thesis
    using run top mid unfolding sigPrime_eq target_def by blast
qed

theorem error_signals_witness:
  "wf_net sample_net \<and> 0 < length [0::nat] \<and> [0::nat] ! 0 < last (structure sample_net) \<and>
   (\<exists>Y X CW CB N'.
           backward_pass [0] sample_net 0 (\<lambda>_. 0) Y X CW CB N' \<and>
           Y = one_hot (last (structure sample_net)) ([0] ! 0) \<and>
           X ! (length (structure sample_net) - 1) =
             Mat (mat_had
                    (mat_scale 2 (mat_sub (mat_val (activations sample_net ! (length (structure sample_net) - 1))) Y))
                    (mat_map (\<lambda>x. exp (- x) / (1 + exp (- x))\<^sup>2)
                       (mat_val (Z sample_net ! (length (structure sample_net) - 1))))) \<and>
           (\<forall>l. 1 \<le> l \<and> l < length (structure sample_net) - 1 \<longrightarrow>
              X ! l =
                Mat (mat_had
                       (mat_mul (mat_T (mat_val (weights sample_net ! l))) (mat_val (X ! (l + 1))))
                       (mat_map (\<lambda>x. exp (- x) / (1 + exp (- x))\<^sup>2) (mat_val (Z sample_net ! l))))))"
proof -
  have h1: "wf_net sample_net" by (rule wf_sample_net)
  have h2: "0 < length [0::nat]" by simp
  have h3: "[0::nat] ! 0 < last (structure sample_net)" by (simp add: sample_net_def)
  show ?thesis
    using h1 h2 h3 error_signals [OF h1 h2 h3, of "\<lambda>_. 0"] by blast
qed





text \<open>
  C7. On a well-formed network with an output layer of \<open>n\<close> neurons and a target column
  \<open>y\<close> of length \<open>n\<close>, \<^verbatim>\<open>getCost\<close> returns
  \<open>(1/n) \<Sum>\<^sub>i (activations[last][i] - y[i])\<^sup>2\<close>, and 0 when the output layer equals \<open>y\<close>.
\<close>

theorem getCost_mean_squared_error:
  assumes "wf_net N" and "is_mat (last (structure N)) 1 y"
  shows "getCost N y g =
           Inr (1 / real (last (structure N)) *
                  (\<Sum>i<last (structure N). (out_layer N ! i ! 0 - y ! i ! 0)\<^sup>2), g) \<and>
         (out_layer N = y \<longrightarrow> getCost N y g = Inr (0, g))"
proof -
  note lst = wf_net_last [OF assms(1)] and lens = wf_net_lengths [OF assms(1)]
  have "getCost N y = js_return (cost_sum (out_layer N) y (last (structure N)) / real (last (structure N)))"
    by (rule getCost_mat [OF lst(4) lens(1) lst(1,2) assms(2) lst(3)])
  then show ?thesis by (simp add: js_return_apply cost_sum_def)
qed

theorem getCost_mean_squared_error_witness:
  "wf_net sample_net \<and> is_mat (last (structure sample_net)) 1 [[0]] \<and>
   out_layer sample_net = [[0]] \<and>
   getCost sample_net [[0]] (\<lambda>_. 0) =
     Inr (1 / real (last (structure sample_net)) *
            (\<Sum>i<last (structure sample_net). (out_layer sample_net ! i ! 0 - [[0]] ! i ! 0)\<^sup>2),
          (\<lambda>_. 0)) \<and>
   getCost sample_net [[0]] (\<lambda>_. 0) = Inr (0, (\<lambda>_. 0))"
proof -
  have h1: "wf_net sample_net" by (rule wf_sample_net)
  have h2: "is_mat (last (structure sample_net)) 1 [[0]]"
    by (simp add: sample_net_def is_mat_def)
  have h3: "out_layer sample_net = [[0]]"
    by (simp add: out_layer_def sample_net_def)
  show ?thesis
    using h1 h2 h3 getCost_mean_squared_error [OF h1 h2, of "\<lambda>_. 0"] by blast
qed

text \<open>
  C9. The shape invariant. The constructor, given layer sizes that are all positive,
  returns a network that satisfies it (and is well-formed when there is a layer). A
  forward pass followed by a backward pass on a well-formed network returns a
  well-formed network of the same structure, and so does \<^verbatim>\<open>train\<close> after any number of
  rounds; well-formed networks satisfy the shape invariant.
\<close>

theorem shape_invariant:
  "(list_all (\<lambda>n. 0 < n) sizes \<longrightarrow>
      (\<exists>N g'. NNetwork sizes g = Inr (N, g') \<and> structure N = sizes \<and> shape_inv N \<and>
               (sizes \<noteq> [] \<longrightarrow> wf_net N))) \<and>
   (wf_net N \<and> input < length imgData \<and> structure N ! 0 \<le> length (imgData ! input) \<and>
    index < length labels \<and> labels ! index < last (structure N) \<longrightarrow>
      (\<exists>N1 g1 N2 g2. forwardProp imgData N input g = Inr (N1, g1) \<and>
                      backProp labels N1 index g1 = Inr (N2, g2) \<and>
                      structure N1 = structure N \<and> shape_inv N1 \<and>
                      structure N2 = structure N \<and> shape_inv N2 \<and> wf_net N2)) \<and>
   (wf_net N \<and> 0 < length imgData \<and> structure N ! 0 \<le> length (imgData ! 0) \<and>
    0 < length labels \<and> labels ! 0 < last (structure N) \<longrightarrow>
      (\<exists>N' g'. train imgData labels N count g = Inr (N', g') \<and>
                structure N' = structure N \<and> shape_inv N' \<and> wf_net N'))"
proof (intro conjI impI)
  assume "list_all (\<lambda>n. 0 < n) sizes"
  then have pos: "\<forall>n\<in>set sizes. 0 < n" by (simp add: list_all_iff)
  obtain N g' where run: "NNetwork sizes g = Inr (N, g')" and b: "built sizes (length sizes) N"
    using NNetwork_returns [OF pos, of g] by blast
  have "min (length sizes) (length sizes - 1) = length sizes - 1" by simp
  then have "shape_inv N" "structure N = sizes"
    using b by (auto simp: built_def shape_inv_def less_diff_conv)
  moreover have "sizes \<noteq> [] \<longrightarrow> wf_net N"
    using built_wf [OF b pos] by simp
  ultimately show "\<exists>N g'. NNetwork sizes g = Inr (N, g') \<and> structure N = sizes \<and> shape_inv N \<and>
               (sizes \<noteq> [] \<longrightarrow> wf_net N)"
    using run by blast
next
  assume a: "wf_net N \<and> input < length imgData \<and> structure N ! 0 \<le> length (imgData ! input) \<and>
    index < length labels \<and> labels ! index < last (structure N)"
  then obtain N1 g1 where 1: "forwardProp imgData N input g = Inr (N1, g1)" "wf_net N1"
      "structure N1 = structure N"
    using forwardProp_returns [of N input imgData g] by auto
  obtain g2 where 2: "backProp labels N1 index g1 = Inr (updated N1 (target labels N1 index), g2)"
    using backProp_returns [OF 1(2), of index labels g1] a 1(3) by auto
  have "wf_net (updated N1 (target labels N1 index))" by (rule wf_net_updated [OF 1(2)])
  moreover have "structure (updated N1 (target labels N1 index)) = structure N"
    using 1(3) by (simp add: updated_def)
  ultimately show "\<exists>N1 g1 N2 g2. forwardProp imgData N input g = Inr (N1, g1) \<and>
                      backProp labels N1 index g1 = Inr (N2, g2) \<and>
                      structure N1 = structure N \<and> shape_inv N1 \<and>
                      structure N2 = structure N \<and> shape_inv N2 \<and> wf_net N2"
    using 1 2 by (auto simp: wf_net_def)
next
  assume a: "wf_net N \<and> 0 < length imgData \<and> structure N ! 0 \<le> length (imgData ! 0) \<and>
    0 < length labels \<and> labels ! 0 < last (structure N)"
  then show "\<exists>N' g'. train imgData labels N count g = Inr (N', g') \<and>
                structure N' = structure N \<and> shape_inv N' \<and> wf_net N'"
    using train_returns [of N imgData labels count g] by (auto simp: wf_net_def)
qed

theorem shape_invariant_witness:
  "(list_all (\<lambda>n. 0 < n) [2, 2, 1::nat] \<and>
      (\<exists>N g'. NNetwork [2, 2, 1] (\<lambda>_. 0) = Inr (N, g') \<and> structure N = [2, 2, 1] \<and> shape_inv N \<and>
               ([2, 2, 1::nat] \<noteq> [] \<longrightarrow> wf_net N))) \<and>
   ((wf_net sample_net \<and> 0 < length sample_images \<and>
     structure sample_net ! 0 \<le> length (sample_images ! 0) \<and>
     0 < length sample_labels \<and> sample_labels ! 0 < last (structure sample_net)) \<and>
      (\<exists>N1 g1 N2 g2. forwardProp sample_images sample_net 0 (\<lambda>_. 0) = Inr (N1, g1) \<and>
                      backProp sample_labels N1 0 g1 = Inr (N2, g2) \<and>
                      structure N1 = structure sample_net \<and> shape_inv N1 \<and>
                      structure N2 = structure sample_net \<and> shape_inv N2 \<and> wf_net N2)) \<and>
   (\<exists>N' g'. train sample_images sample_labels sample_net 3 (\<lambda>_. 0) = Inr (N', g') \<and>
                structure N' = structure sample_net \<and> shape_inv N' \<and> wf_net N')"
proof -
  have h0: "list_all (\<lambda>n. 0 < n) [2, 2, 1::nat]" by simp
  have h1: "wf_net sample_net \<and> 0 < length sample_images \<and>
     structure sample_net ! 0 \<le> length (sample_images ! 0) \<and>
     0 < length sample_labels \<and> sample_labels ! 0 < last (structure sample_net)"
    using wf_sample_net by (simp add: sample_net_def sample_images_def sample_labels_def)
  show ?thesis
    using h0 h1
      shape_invariant [of "[2, 2, 1]" "\<lambda>_. 0" sample_net 0 sample_images 0 sample_labels 3]
    by blast
qed

text \<open>
  C10. \<^verbatim>\<open>calculate(l)\<close> with \<open>l < 1\<close> returns \<^verbatim>\<open>false\<close> and changes nothing: the network
  (weights, biases, activations, \<open>Z\<close> and the other fields) is the one it was called on,
  and no random number is consumed.
\<close>

theorem calculate_below_one:
  "l < 1 \<Longrightarrow> calculate N l g = Inr ((JFalse, N), g)"
  by (simp add: calculate_def js_return_def)

theorem calculate_below_one_witness:
  "(0::int) < 1 \<and> calculate sample_net 0 (\<lambda>_. 0) = Inr ((JFalse, sample_net), (\<lambda>_. 0))"
proof -
  have h: "(0::int) < 1" by simp
  show ?thesis using h calculate_below_one [OF h] by simp
qed

end
